theory Spec2Isabelle
  imports Complex_Main "HOL-Library.AList" "HOL-Library.Sublist"
begin

section \<open>Python values and the operations the pipeline performs on them\<close>

text \<open>
  The catalog document is whatever \<^verbatim>\<open>response.json()\<close> returned: a tree of dicts, lists,
  strings, numbers, booleans and \<^verbatim>\<open>None\<close>. A dict of a parsed JSON document has string keys,
  kept in insertion order; it is modelled as an association list whose keys are looked up
  with \<open>map_of\<close> and iterated in list order (a Python dict never holds a key twice).
  Strings are lists of characters, and a character is read as the code point of its number:
  the model covers the strings over the code points below 256, and the character classes
  below (\<^verbatim>\<open>isdigit\<close>, \<^verbatim>\<open>\d\<close>, \<^verbatim>\<open>\w\<close>) are those of Python on these code points.
\<close>

datatype pyval =
    PNone
  | PBool bool
  | PInt int
  | PFloat real
  | PStr string
  | PList "pyval list"
  | PDict "(string \<times> pyval) list"

type_synonym pydict = "(string \<times> pyval) list"

text \<open>The builtin exceptions that the code of the pipeline can raise.\<close>

datatype py_error = KeyError | IndexError | TypeError | ValueError | AttributeError

type_synonym 'a result = "py_error + 'a"

text \<open>Sequencing of two statements: the second runs only if the first did not raise.\<close>

definition and_then :: "'a result \<Rightarrow> ('a \<Rightarrow> 'b result) \<Rightarrow> 'b result" where
  "and_then m f = (case m of Inl e \<Rightarrow> Inl e | Inr x \<Rightarrow> f x)"

text \<open>A \<^verbatim>\<open>for\<close> loop over an already materialised sequence, threading the loop's state.\<close>

fun for_loop :: "('a \<Rightarrow> 's \<Rightarrow> 's result) \<Rightarrow> 'a list \<Rightarrow> 's \<Rightarrow> 's result" where
  "for_loop body [] s = Inr s"
| "for_loop body (x # xs) s =
     (case body x s of Inl e \<Rightarrow> Inl e | Inr s' \<Rightarrow> for_loop body xs s')"

text \<open>A list comprehension \<^verbatim>\<open>[f(a) for a in xs]\<close>: the first exception aborts it.\<close>

fun comprehension :: "('a \<Rightarrow> 'b result) \<Rightarrow> 'a list \<Rightarrow> 'b list result" where
  "comprehension f [] = Inr []"
| "comprehension f (x # xs) =
     (case f x of Inl e \<Rightarrow> Inl e
      | Inr y \<Rightarrow> (case comprehension f xs of Inl e \<Rightarrow> Inl e | Inr ys \<Rightarrow> Inr (y # ys)))"

text \<open>Truth value of an object, as tested by \<^verbatim>\<open>if x:\<close>.\<close>

fun truthy :: "pyval \<Rightarrow> bool" where
  "truthy PNone = False"
| "truthy (PBool b) = b"
| "truthy (PInt n) = (n \<noteq> 0)"
| "truthy (PFloat r) = (r \<noteq> 0)"
| "truthy (PStr s) = (s \<noteq> [])"
| "truthy (PList xs) = (xs \<noteq> [])"
| "truthy (PDict kvs) = (kvs \<noteq> [])"

text \<open>
  Indexing a sequence with an integer: negative indices count from the end, anything
  outside \<open>-n \<dots> n-1\<close> raises \<^verbatim>\<open>IndexError\<close>.
\<close>

definition seq_index :: "'a list \<Rightarrow> int \<Rightarrow> 'a result" where
  "seq_index xs i =
     (if 0 \<le> i \<and> i < int (length xs) then Inr (xs ! nat i)
      else if i < 0 \<and> - int (length xs) \<le> i then Inr (xs ! nat (int (length xs) + i))
      else Inl IndexError)"

text \<open>The objects accepted as a sequence index: \<^verbatim>\<open>int\<close> and its subclass \<^verbatim>\<open>bool\<close>.\<close>

fun as_index :: "pyval \<Rightarrow> int option" where
  "as_index (PInt n) = Some n"
| "as_index (PBool b) = Some (if b then 1 else 0)"
| "as_index _ = None"

fun hashable :: "pyval \<Rightarrow> bool" where
  "hashable (PList _) = False"
| "hashable (PDict _) = False"
| "hashable _ = True"

text \<open>
  The subscription \<^verbatim>\<open>obj[key]\<close>. A dict raises \<^verbatim>\<open>KeyError\<close> on a missing key (all its keys
  are strings, so every non-string hashable key is missing) and \<^verbatim>\<open>TypeError\<close> on an
  unhashable one; a list or a string raises \<^verbatim>\<open>TypeError\<close> on a key that is not an integer
  and \<^verbatim>\<open>IndexError\<close> out of range; the other objects are not subscriptable.
\<close>

fun py_getitem :: "pyval \<Rightarrow> pyval \<Rightarrow> pyval result" where
  "py_getitem (PDict kvs) key =
     (case key of
        PStr k \<Rightarrow> (case map_of kvs k of Some v \<Rightarrow> Inr v | None \<Rightarrow> Inl KeyError)
      | _ \<Rightarrow> if hashable key then Inl KeyError else Inl TypeError)"
| "py_getitem (PList xs) key =
     (case as_index key of Some i \<Rightarrow> seq_index xs i | None \<Rightarrow> Inl TypeError)"
| "py_getitem (PStr s) key =
     (case as_index key of
        Some i \<Rightarrow> (case seq_index s i of Inl e \<Rightarrow> Inl e | Inr c \<Rightarrow> Inr (PStr [c]))
      | None \<Rightarrow> Inl TypeError)"
| "py_getitem _ key = Inl TypeError"

text \<open>The items a \<^verbatim>\<open>for\<close> statement draws from an object: a dict yields its keys.\<close>

fun py_iter :: "pyval \<Rightarrow> pyval list result" where
  "py_iter (PDict kvs) = Inr (map (\<lambda>kv. PStr (fst kv)) kvs)"
| "py_iter (PList xs) = Inr xs"
| "py_iter (PStr s) = Inr (map (\<lambda>c. PStr [c]) s)"
| "py_iter _ = Inl TypeError"

text \<open>The assignment \<^verbatim>\<open>d[k] = v\<close> on a dict: replaces in place or appends.\<close>

definition dict_set :: "string \<Rightarrow> pyval \<Rightarrow> pydict \<Rightarrow> pydict" where
  "dict_set k v d = AList.update k v d"

section \<open>The flattener: \<^verbatim>\<open>transform_json_to_list\<close>\<close>

text \<open>
  The block guarded by \<^verbatim>\<open>if course_details[1]:\<close>, identical in \<^verbatim>\<open>src/etl.py\<close> (lines 42-48)
  and \<^verbatim>\<open>src/etl/gt_class_etl.py\<close> (lines 59-65). In \<^verbatim>\<open>caches['periods'][section_details[0]]\<close>
  the cache is fetched before the index.
\<close>

definition meeting_fields :: "pyval \<Rightarrow> pyval \<Rightarrow> pydict \<Rightarrow> pydict result" where
  "meeting_fields caches meetings course_format =
     and_then (py_getitem meetings (PInt 0)) (\<lambda>section_details.
     and_then (py_getitem caches (PStr ''periods'')) (\<lambda>periods.
     and_then (py_getitem section_details (PInt 0)) (\<lambda>period_idx.
     and_then (py_getitem periods period_idx) (\<lambda>time.
     and_then (py_getitem section_details (PInt 1)) (\<lambda>day_of_week.
     and_then (py_getitem section_details (PInt 2)) (\<lambda>building.
     and_then (py_getitem caches (PStr ''locations'')) (\<lambda>locations.
     and_then (py_getitem section_details (PInt 3)) (\<lambda>location_idx.
     and_then (py_getitem locations location_idx) (\<lambda>building_coords.
     and_then (py_getitem section_details (PInt 4)) (\<lambda>professors.
     and_then (py_getitem caches (PStr ''dateRanges'')) (\<lambda>date_ranges.
     and_then (py_getitem section_details (PInt 5)) (\<lambda>date_range_idx.
     and_then (py_getitem date_ranges date_range_idx) (\<lambda>date_range.
     Inr (dict_set ''date_range'' date_range
         (dict_set ''professors'' professors
         (dict_set ''building_coords'' building_coords
         (dict_set ''building'' building
         (dict_set ''day_of_week'' day_of_week
         (dict_set ''time'' time course_format)))))))))))))))))))"

text \<open>
  The part of the loop body shared by both files: from \<^verbatim>\<open>course_format = {}\<close> to the
  assignment of \<^verbatim>\<open>course_format['campus']\<close>.
\<close>

definition section_fields :: "pyval \<Rightarrow> pyval \<Rightarrow> pyval \<Rightarrow> pyval \<Rightarrow> pyval \<Rightarrow> pydict result" where
  "section_fields caches courses i l course_details =
     and_then (py_getitem course_details (PInt 0)) (\<lambda>crn.
     and_then (py_getitem courses i) (\<lambda>course.
     and_then (py_getitem course (PInt 0)) (\<lambda>actual_name.
     and_then (py_getitem course_details (PInt 1)) (\<lambda>meetings.
     and_then
       (let course_format =
              dict_set ''section'' l
                (dict_set ''actual_name'' actual_name
                (dict_set ''name'' i
                (dict_set ''crn'' crn [])))
        in if truthy meetings then meeting_fields caches meetings course_format
           else Inr course_format) (\<lambda>course_format.
     and_then (py_getitem course_details (PInt 2)) (\<lambda>credits.
     and_then (py_getitem caches (PStr ''scheduleTypes'')) (\<lambda>schedule_types.
     and_then (py_getitem course_details (PInt 3)) (\<lambda>schedule_type_idx.
     and_then (py_getitem schedule_types schedule_type_idx) (\<lambda>schedule_type.
     and_then (py_getitem caches (PStr ''campuses'')) (\<lambda>campuses.
     and_then (py_getitem course_details (PInt 4)) (\<lambda>campus_idx.
     and_then (py_getitem campuses campus_idx) (\<lambda>campus.
     Inr (dict_set ''campus'' campus
         (dict_set ''schedule_type'' schedule_type
         (dict_set ''credits'' credits course_format)))))))))))))))"

text \<open>One lookup \<^verbatim>\<open>caches['attributes'][a]\<close>.\<close>

definition attribute_label :: "pyval \<Rightarrow> pyval \<Rightarrow> pyval result" where
  "attribute_label caches a =
     and_then (py_getitem caches (PStr ''attributes'')) (\<lambda>attributes. py_getitem attributes a)"

text \<open>
  \<^verbatim>\<open>src/etl/gt_class_etl.py\<close>, line 72: the conditional expression tests
  \<^verbatim>\<open>course_details[5]\<close> first and builds the list only when it is true.
\<close>

definition gt_attributes :: "pyval \<Rightarrow> pyval \<Rightarrow> pydict \<Rightarrow> pydict result" where
  "gt_attributes caches course_details course_format =
     and_then (py_getitem course_details (PInt 5)) (\<lambda>cond.
     if truthy cond then
       and_then (py_getitem course_details (PInt 5)) (\<lambda>idxs.
       and_then (py_iter idxs) (\<lambda>items.
       and_then (comprehension (attribute_label caches) items) (\<lambda>labels.
       Inr (dict_set ''attributes'' (PList labels) course_format))))
     else Inr (dict_set ''attributes'' PNone course_format))"

text \<open>
  \<^verbatim>\<open>src/etl.py\<close>, lines 55-57: the field is first set to the index list, which the loop
  then iterates while overwriting the field with each label in turn.
\<close>

definition etl_attributes :: "pyval \<Rightarrow> pyval \<Rightarrow> pydict \<Rightarrow> pydict result" where
  "etl_attributes caches course_details course_format =
     and_then (py_getitem course_details (PInt 5)) (\<lambda>idxs.
     and_then (py_iter idxs) (\<lambda>items.
     for_loop (\<lambda>a course_format.
         and_then (attribute_label caches a) (\<lambda>label.
         Inr (dict_set ''attributes'' label course_format)))
       items (dict_set ''attributes'' idxs course_format)))"

text \<open>The body of the inner loop, for the section key \<open>l\<close> of the course key \<open>i\<close>.\<close>

definition gt_course_format :: "pyval \<Rightarrow> pyval \<Rightarrow> pyval \<Rightarrow> pyval \<Rightarrow> pyval \<Rightarrow> pydict result" where
  "gt_course_format caches courses i sections l =
     and_then (py_getitem sections l) (\<lambda>course_details.
     and_then (section_fields caches courses i l course_details) (\<lambda>course_format.
     gt_attributes caches course_details course_format))"

definition etl_course_format :: "pyval \<Rightarrow> pyval \<Rightarrow> pyval \<Rightarrow> pyval \<Rightarrow> pyval \<Rightarrow> pydict result" where
  "etl_course_format caches courses i sections l =
     and_then (py_getitem sections l) (\<lambda>course_details.
     and_then (section_fields caches courses i l course_details) (\<lambda>course_format.
     etl_attributes caches course_details course_format))"

text \<open>
  The two nested loops, parametrised by the loop body only: \<^verbatim>\<open>sections = courses[i][1]\<close>
  is evaluated once per course, and every record is appended to \<^verbatim>\<open>course_list\<close>.
\<close>

definition sections_loop ::
  "(pyval \<Rightarrow> pyval \<Rightarrow> pyval \<Rightarrow> pydict result) \<Rightarrow>
   pyval \<Rightarrow> pyval \<Rightarrow> pydict list \<Rightarrow> pydict list result" where
  "sections_loop body courses i course_list =
     and_then (py_getitem courses i) (\<lambda>course.
     and_then (py_getitem course (PInt 1)) (\<lambda>sections.
     and_then (py_iter sections) (\<lambda>ls.
     for_loop (\<lambda>l course_list.
         and_then (body i sections l) (\<lambda>course_format. Inr (course_list @ [course_format])))
       ls course_list)))"

definition gt_transform_json_to_list :: "pyval \<Rightarrow> pydict list result" where
  "gt_transform_json_to_list json =
     and_then (py_getitem json (PStr ''caches'')) (\<lambda>caches.
     and_then (py_getitem json (PStr ''courses'')) (\<lambda>courses.
     and_then (py_iter courses) (\<lambda>is.
     for_loop (sections_loop (gt_course_format caches courses) courses) is [])))"

definition etl_transform_json_to_list :: "pyval \<Rightarrow> pydict list result" where
  "etl_transform_json_to_list json =
     and_then (py_getitem json (PStr ''caches'')) (\<lambda>caches.
     and_then (py_getitem json (PStr ''courses'')) (\<lambda>courses.
     and_then (py_iter courses) (\<lambda>is.
     for_loop (sections_loop (etl_course_format caches courses) courses) is [])))"

section \<open>The part of pandas that \<^verbatim>\<open>transform\<close> uses\<close>

text \<open>
  A cell of a data frame holds a Python object, the missing-value marker \<^verbatim>\<open>NaN\<close>, or a
  \<^verbatim>\<open>datetime.time\<close> (hour and minute; the code never sets seconds).
\<close>

datatype cell = NaN | Obj pyval | Time nat nat

text \<open>
  A data frame: its row labels and its columns in order, each column holding one cell
  per row label.
\<close>

record frame =
  index :: "nat list"
  columns :: "(string \<times> cell list) list"

definition first_seen :: "'a list \<Rightarrow> 'a list" where
  "first_seen xs = rev (remdups (rev xs))"

definition cell_of :: "pyval option \<Rightarrow> cell" where
  "cell_of v = (case v of None \<Rightarrow> NaN | Some x \<Rightarrow> Obj x)"

text \<open>
  \<^verbatim>\<open>pd.DataFrame(list_of_dicts)\<close>: the rows are labelled \<open>0, 1, \<dots>\<close>, the columns are the
  keys in order of first appearance, and a key that a record lacks gives \<^verbatim>\<open>NaN\<close>.
\<close>

definition DataFrame :: "pydict list \<Rightarrow> frame" where
  "DataFrame data =
     \<lparr>index = [0..<length data],
      columns = map (\<lambda>k. (k, map (\<lambda>r. cell_of (map_of r k)) data))
                    (first_seen (concat (map (map fst) data)))\<rparr>"

text \<open>\<^verbatim>\<open>df.drop(labels, axis=1)\<close>: a label that is not a column raises \<^verbatim>\<open>KeyError\<close>.\<close>

definition drop_columns :: "string list \<Rightarrow> frame \<Rightarrow> frame result" where
  "drop_columns labels df =
     (if set labels \<subseteq> set (map fst (columns df))
      then Inr (df\<lparr>columns := filter (\<lambda>c. fst c \<notin> set labels) (columns df)\<rparr>)
      else Inl KeyError)"

text \<open>\<^verbatim>\<open>df[name]\<close>.\<close>

definition get_column :: "frame \<Rightarrow> string \<Rightarrow> cell list result" where
  "get_column df name =
     (case map_of (columns df) name of None \<Rightarrow> Inl KeyError | Some c \<Rightarrow> Inr c)"

text \<open>
  \<^verbatim>\<open>df[name] = series\<close> for a series over the frame's own rows: an existing column is
  replaced where it stands, a new one is appended.
\<close>

definition set_column :: "string \<Rightarrow> cell list \<Rightarrow> frame \<Rightarrow> frame" where
  "set_column name c df = df\<lparr>columns := AList.update name c (columns df)\<rparr>"

text \<open>
  \<^verbatim>\<open>df[[k1, k2, \<dots>]] = frame\<close>: pandas raises \<^verbatim>\<open>ValueError\<close> (``Columns must be same length
  as key'') unless the assigned frame has exactly as many columns as there are keys.
\<close>

definition set_columns :: "string list \<Rightarrow> cell list list \<Rightarrow> frame \<Rightarrow> frame result" where
  "set_columns keys val df =
     (if length val \<noteq> length keys then Inl ValueError
      else Inr (fold (\<lambda>kc d. set_column (fst kc) (snd kc) d) (zip keys val) df))"

text \<open>Missing values, as \<^verbatim>\<open>isna\<close> sees them: \<^verbatim>\<open>NaN\<close> and \<^verbatim>\<open>None\<close>.\<close>

fun isna :: "cell \<Rightarrow> bool" where
  "isna NaN = True"
| "isna (Obj PNone) = True"
| "isna _ = False"

fun is_str :: "cell \<Rightarrow> bool" where
  "is_str (Obj (PStr s)) = True"
| "is_str _ = False"

text \<open>
  The \<^verbatim>\<open>.str\<close> accessor. pandas decides from the inferred type of the column whether the
  accessor exists (``Can only use .str accessor with string values''). The data model
  makes these columns hold strings or nothing, and that case is modelled exactly: the
  accessor is granted. A column holding any other object is refused here; pandas grants
  some such columns (mixed objects), which the theorems below exclude by hypothesis.
\<close>

definition str_accessor :: "cell list \<Rightarrow> cell list result" where
  "str_accessor c = (if \<forall>x \<in> set c. isna x \<or> is_str x then Inr c else Inl AttributeError)"

text \<open>
  Python's \<^verbatim>\<open>s.split(sep)\<close> for a non-empty separator: the pieces between the leftmost
  non-overlapping occurrences, always at least one piece. \<open>cur\<close> is the piece being read.
\<close>

fun split_on :: "string \<Rightarrow> string \<Rightarrow> string \<Rightarrow> string list" where
  "split_on sep cur [] = [cur]"
| "split_on sep cur (c # cs) =
     (if sep \<noteq> [] \<and> take (length sep) (c # cs) = sep
      then cur # split_on sep [] (drop (length sep - 1) cs)
      else split_on sep (cur @ [c]) cs)"

text \<open>
  \<^verbatim>\<open>series.str.split(sep, expand=True)\<close>. Element by element a string is split and anything
  else is missing; the result is a frame as wide as the longest list, whose shorter rows
  are padded with \<^verbatim>\<open>None\<close> and whose missing rows are \<^verbatim>\<open>NaN\<close> throughout. (The separator
  \<^verbatim>\<open>' - '\<close> is longer than one character, so pandas compiles it as a regular expression;
  it has no special character and splits like the literal.)
\<close>

definition str_split :: "string \<Rightarrow> cell \<Rightarrow> string list option" where
  "str_split sep x = (case x of Obj (PStr s) \<Rightarrow> Some (split_on sep [] s) | _ \<Rightarrow> None)"

definition part_width :: "string list option \<Rightarrow> nat" where
  "part_width p = (case p of None \<Rightarrow> 1 | Some ps \<Rightarrow> length ps)"

definition part_cell :: "nat \<Rightarrow> string list option \<Rightarrow> cell" where
  "part_cell j p =
     (case p of None \<Rightarrow> NaN
      | Some ps \<Rightarrow> if j < length ps then Obj (PStr (ps ! j)) else Obj PNone)"

definition str_split_expand :: "string \<Rightarrow> cell list \<Rightarrow> cell list list" where
  "str_split_expand sep c =
     (let parts = map (str_split sep) c;
          width = fold max (map part_width parts) 0
      in map (\<lambda>j. map (part_cell j) parts) [0..<width])"

text \<open>The rows at the given positions, in that order.\<close>

definition take_rows :: "nat list \<Rightarrow> frame \<Rightarrow> frame" where
  "take_rows keep df =
     \<lparr>index = map (\<lambda>p. index df ! p) keep,
      columns = map (\<lambda>kc. (fst kc, map (\<lambda>p. snd kc ! p) keep)) (columns df)\<rparr>"

text \<open>
  \<^verbatim>\<open>df.dropna(subset=names, inplace=True)\<close>: keeps the rows in which none of the named
  columns is missing.
\<close>

definition dropna :: "string list \<Rightarrow> frame \<Rightarrow> frame result" where
  "dropna names df =
     and_then (comprehension (get_column df) names) (\<lambda>cs.
     Inr (take_rows (filter (\<lambda>p. \<forall>c \<in> set cs. \<not> isna (c ! p)) [0..<length (index df)]) df))"

text \<open>
  \<^verbatim>\<open>df[names].isna().any(axis=1)\<close>, then \<^verbatim>\<open>df[mask].index\<close>: the labels of the rows in which
  one of the named columns is missing.
\<close>

definition isna_any_index :: "string list \<Rightarrow> frame \<Rightarrow> nat list result" where
  "isna_any_index names df =
     and_then (comprehension (get_column df) names) (\<lambda>cs.
     Inr (map (\<lambda>p. index df ! p)
            (filter (\<lambda>p. \<exists>c \<in> set cs. isna (c ! p)) [0..<length (index df)])))"

text \<open>\<^verbatim>\<open>df.drop(labels, inplace=True)\<close> on rows: a label that is no row raises \<^verbatim>\<open>KeyError\<close>.\<close>

definition drop_rows :: "nat list \<Rightarrow> frame \<Rightarrow> frame result" where
  "drop_rows labels df =
     (if set labels \<subseteq> set (index df)
      then Inr (take_rows (filter (\<lambda>p. index df ! p \<notin> set labels) [0..<length (index df)]) df)
      else Inl KeyError)"

subsection \<open>Times\<close>

text \<open>
  The class \<^verbatim>\<open>\d\<close> of a regular expression over \<^verbatim>\<open>str\<close>: the decimal digits, which among the
  code points below 256 are \<^verbatim>\<open>0\<close> to \<^verbatim>\<open>9\<close>.
\<close>

definition is_digit :: "char \<Rightarrow> bool" where
  "is_digit c = (c \<in> set ''0123456789'')"

definition digit_val :: "char \<Rightarrow> nat" where
  "digit_val c = of_char c - 48"

text \<open>
  \<^verbatim>\<open>s.isdigit()\<close>: at least one character, and every character has the Unicode property
  of a digit. That class is wider than \<^verbatim>\<open>\d\<close>: below 256 it also holds the superscripts
  two, three and one (code points 178, 179 and 185).
\<close>

definition digit_property :: "char \<Rightarrow> bool" where
  "digit_property c = (is_digit c \<or> (of_char c :: nat) \<in> set [178, 179, 185])"

definition isdigit :: "string \<Rightarrow> bool" where
  "isdigit s = (s \<noteq> [] \<and> (\<forall>c \<in> set s. digit_property c))"

text \<open>
  \<^verbatim>\<open>datetime.strptime(s, '%H%M')\<close> compiles the format to the regular expression
  \<^verbatim>\<open>(?P<H>2[0-3]|[0-1]\d|\d)(?P<M>[0-5]\d|\d)\<close>, takes its first match at the start of the
  string in backtracking order, and raises \<^verbatim>\<open>ValueError\<close> when there is no match or when
  the match does not end at the end of the string. \<open>hour_alts\<close> and \<open>minute_alts\<close> list,
  in the order the alternatives are tried, the value read and the text left over.
\<close>

definition hour_alts :: "string \<Rightarrow> (nat \<times> string) list" where
  "hour_alts s =
     (case s of
        a # b # r \<Rightarrow>
          (if (a = CHR ''2'' \<and> b \<in> set ''0123'') \<or> (a \<in> set ''01'' \<and> is_digit b)
           then [(10 * digit_val a + digit_val b, r)] else [])
          @ (if is_digit a then [(digit_val a, b # r)] else [])
      | [a] \<Rightarrow> if is_digit a then [(digit_val a, [])] else []
      | [] \<Rightarrow> [])"

definition minute_alts :: "string \<Rightarrow> (nat \<times> string) list" where
  "minute_alts s =
     (case s of
        a # b # r \<Rightarrow>
          (if a \<in> set ''012345'' \<and> is_digit b
           then [(10 * digit_val a + digit_val b, r)] else [])
          @ (if is_digit a then [(digit_val a, b # r)] else [])
      | [a] \<Rightarrow> if is_digit a then [(digit_val a, [])] else []
      | [] \<Rightarrow> [])"

definition strptime_HM :: "string \<Rightarrow> (nat \<times> nat) result" where
  "strptime_HM s =
     (case concat (map (\<lambda>hr. map (\<lambda>mr. (fst hr, fst mr, snd mr)) (minute_alts (snd hr)))
                       (hour_alts s)) of
        [] \<Rightarrow> Inl ValueError
      | (h, m, rest) # _ \<Rightarrow> if rest = [] then Inr (h, m) else Inl ValueError)"

text \<open>
  The local function \<^verbatim>\<open>transform_military_time\<close>: without a \<^verbatim>\<open>return\<close> on the other
  branch it yields \<^verbatim>\<open>None\<close> for a string that is not all digits. An object that is not a
  string has no \<^verbatim>\<open>isdigit\<close>.
\<close>

definition transform_military_time :: "cell \<Rightarrow> cell result" where
  "transform_military_time military_time =
     (case military_time of
        Obj (PStr s) \<Rightarrow>
          if isdigit s
          then (case strptime_HM s of Inl e \<Rightarrow> Inl e | Inr hm \<Rightarrow> Inr (Time (fst hm) (snd hm)))
          else Inr (Obj PNone)
      | _ \<Rightarrow> Inl AttributeError)"

text \<open>\<^verbatim>\<open>series.apply(f)\<close>: \<open>f\<close> on every cell in row order.\<close>

definition apply_series :: "(cell \<Rightarrow> cell result) \<Rightarrow> cell list \<Rightarrow> cell list result" where
  "apply_series f c = comprehension f c"

subsection \<open>Weekdays and buildings\<close>

text \<open>
  \<^verbatim>\<open>series.str.contains(pat, na=False)\<close> for a pattern that is one letter: whether the
  letter occurs in the string; \<^verbatim>\<open>False\<close> for a cell that is no string.
\<close>

definition str_contains :: "char \<Rightarrow> cell \<Rightarrow> cell" where
  "str_contains pat x =
     (case x of Obj (PStr s) \<Rightarrow> Obj (PBool (pat \<in> set s)) | _ \<Rightarrow> Obj (PBool False))"

text \<open>
  The class \<^verbatim>\<open>\w\<close> of a regular expression over \<^verbatim>\<open>str\<close>: the underscore and every
  character that is alphanumeric in Unicode. Below 256 these are the ASCII digits and
  letters, the ordinal indicators and the micro sign (170, 186, 181), the superscript
  digits (178, 179, 185), the vulgar fractions (188 to 190) and the accented letters (192
  to 255 without the multiplication and division signs 215 and 247).
\<close>

definition word_char :: "char \<Rightarrow> bool" where
  "word_char c =
     (let n = (of_char c :: nat)
      in (48 \<le> n \<and> n \<le> 57) \<or> (65 \<le> n \<and> n \<le> 90) \<or> (97 \<le> n \<and> n \<le> 122) \<or> n = 95
         \<or> n \<in> set [170, 178, 179, 181, 185, 186, 188, 189, 190]
         \<or> (192 \<le> n \<and> n \<le> 214) \<or> (216 \<le> n \<and> n \<le> 246) \<or> 248 \<le> n)"

text \<open>Whether \<^verbatim>\<open>\w+\d\<close> matches at the start of the text.\<close>

fun token_at :: "string \<Rightarrow> bool" where
  "token_at (c # d # r) = (word_char c \<and> (is_digit d \<or> token_at (d # r)))"
| "token_at _ = False"

text \<open>
  Group 1 of \<^verbatim>\<open>(.*) \w+\d\<close> matched at the start of the text: \<^verbatim>\<open>.*\<close> is greedy and does
  not cross a line feed, so the first match found is the one with the longest group.
\<close>

fun match_here :: "string \<Rightarrow> string option" where
  "match_here [] = None"
| "match_here (c # cs) =
     (case (if c = CHR 0x0A then None else match_here cs) of
        Some g \<Rightarrow> Some (c # g)
      | None \<Rightarrow> if c = CHR '' '' \<and> token_at cs then Some [] else None)"

text \<open>\<^verbatim>\<open>re.search\<close>: the match at the leftmost position that has one.\<close>

fun re_search :: "string \<Rightarrow> string option" where
  "re_search [] = match_here []"
| "re_search (c # cs) =
     (case match_here (c # cs) of Some g \<Rightarrow> Some g | None \<Rightarrow> re_search cs)"

text \<open>\<^verbatim>\<open>series.str.extract(r'(.*) \w+\d')\<close>, element by element.\<close>

definition str_extract :: "cell \<Rightarrow> cell" where
  "str_extract x =
     (case x of
        Obj (PStr s) \<Rightarrow> (case re_search s of Some g \<Rightarrow> Obj (PStr g) | None \<Rightarrow> NaN)
      | _ \<Rightarrow> NaN)"

section \<open>The normalizer: \<^verbatim>\<open>transform\<close>\<close>

text \<open>The statement forms of \<^verbatim>\<open>transform\<close>, one definition per form.\<close>

text \<open>\<^verbatim>\<open>df[keys] = df[src].str.split(' - ', expand=True)\<close>\<close>

definition split_column :: "string \<Rightarrow> string list \<Rightarrow> frame \<Rightarrow> frame result" where
  "split_column src keys df =
     and_then (get_column df src) (\<lambda>c.
     and_then (str_accessor c) (\<lambda>c.
     set_columns keys (str_split_expand '' - '' c) df))"

text \<open>\<^verbatim>\<open>df[name] = df[name].apply(transform_military_time)\<close>\<close>

definition apply_column :: "string \<Rightarrow> (cell \<Rightarrow> cell result) \<Rightarrow> frame \<Rightarrow> frame result" where
  "apply_column name f df =
     and_then (get_column df name) (\<lambda>c.
     and_then (apply_series f c) (\<lambda>c'.
     Inr (set_column name c' df)))"

text \<open>\<^verbatim>\<open>df[dst] = df[src].str.contains(pat, na=False)\<close>\<close>

definition contains_column :: "string \<Rightarrow> string \<Rightarrow> char \<Rightarrow> frame \<Rightarrow> frame result" where
  "contains_column dst src pat df =
     and_then (get_column df src) (\<lambda>c.
     and_then (str_accessor c) (\<lambda>c.
     Inr (set_column dst (map (str_contains pat) c) df)))"

text \<open>
  \<^verbatim>\<open>df[name] = df[name].str.extract(r'(.*) \w+\d')\<close>: the pattern has one group, so the
  extracted frame has one column, which is what a single key accepts.
\<close>

definition extract_column :: "string \<Rightarrow> frame \<Rightarrow> frame result" where
  "extract_column name df =
     and_then (get_column df name) (\<lambda>c.
     and_then (str_accessor c) (\<lambda>c.
     Inr (set_column name (map str_extract c) df)))"

text \<open>\<^verbatim>\<open>transform\<close> of \<^verbatim>\<open>src/etl/gt_class_etl.py\<close> (lines 77-125), statement by statement.\<close>

definition gt_transform :: "pydict list \<Rightarrow> frame result" where
  "gt_transform course_list =
     and_then (drop_columns [''attributes'', ''building_coords'', ''professors'']
                 (DataFrame course_list)) (\<lambda>df.
     and_then (split_column ''date_range'' [''start_date'', ''end_date''] df) (\<lambda>df.
     and_then (split_column ''time'' [''start_time'', ''end_time''] df) (\<lambda>df.
     and_then (drop_columns [''date_range'', ''time''] df) (\<lambda>df.
     and_then (dropna [''start_time'', ''end_time''] df) (\<lambda>df.
     and_then (apply_column ''start_time'' transform_military_time df) (\<lambda>df.
     and_then (apply_column ''end_time'' transform_military_time df) (\<lambda>df.
     and_then (contains_column ''monday'' ''day_of_week'' CHR ''M'' df) (\<lambda>df.
     and_then (contains_column ''tuesday'' ''day_of_week'' CHR ''T'' df) (\<lambda>df.
     and_then (contains_column ''wednesday'' ''day_of_week'' CHR ''W'' df) (\<lambda>df.
     and_then (contains_column ''thursday'' ''day_of_week'' CHR ''R'' df) (\<lambda>df.
     and_then (contains_column ''friday'' ''day_of_week'' CHR ''F'' df) (\<lambda>df.
     and_then (drop_columns [''day_of_week''] df) (\<lambda>df.
     extract_column ''building'' df)))))))))))))"

text \<open>
  \<^verbatim>\<open>transform\<close> of \<^verbatim>\<open>src/etl.py\<close> (lines 62-93): the rows are dropped by label, and the
  fourth weekday column is spelled \<^verbatim>\<open>thurday\<close>.
\<close>

definition etl_transform :: "pydict list \<Rightarrow> frame result" where
  "etl_transform course_list =
     and_then (drop_columns [''attributes'', ''building_coords'', ''professors'']
                 (DataFrame course_list)) (\<lambda>df.
     and_then (split_column ''date_range'' [''start_date'', ''end_date''] df) (\<lambda>df.
     and_then (split_column ''time'' [''start_time'', ''end_time''] df) (\<lambda>df.
     and_then (drop_columns [''date_range'', ''time''] df) (\<lambda>df.
     and_then (isna_any_index [''start_time'', ''end_time''] df) (\<lambda>labels.
     and_then (drop_rows labels df) (\<lambda>df.
     and_then (apply_column ''start_time'' transform_military_time df) (\<lambda>df.
     and_then (apply_column ''end_time'' transform_military_time df) (\<lambda>df.
     and_then (contains_column ''monday'' ''day_of_week'' CHR ''M'' df) (\<lambda>df.
     and_then (contains_column ''tuesday'' ''day_of_week'' CHR ''T'' df) (\<lambda>df.
     and_then (contains_column ''wednesday'' ''day_of_week'' CHR ''W'' df) (\<lambda>df.
     and_then (contains_column ''thurday'' ''day_of_week'' CHR ''R'' df) (\<lambda>df.
     and_then (contains_column ''friday'' ''day_of_week'' CHR ''F'' df) (\<lambda>df.
     and_then (drop_columns [''day_of_week''] df) (\<lambda>df.
     extract_column ''building'' df))))))))))))))"

section \<open>Vocabulary of the proofs\<close>

text \<open>
  Every operation of \<^verbatim>\<open>transform\<close> works row by row. \<open>frame_of df rs idx g\<close> says that
  the frame \<open>df\<close> has the row labels \<open>idx\<close>, distinct column names, and in column \<open>k\<close>, at
  the row labelled \<open>i\<close>, the cell \<open>g k (rs ! i)\<close> computed from the \<open>i\<close>-th input record.
\<close>

definition frame_of :: "frame \<Rightarrow> pydict list \<Rightarrow> nat list \<Rightarrow> (string \<Rightarrow> pydict \<Rightarrow> cell) \<Rightarrow> bool" where
  "frame_of df rs idx g =
     (index df = idx \<and> distinct (map fst (columns df)) \<and>
      (\<forall>kc \<in> set (columns df). snd kc = map (\<lambda>i. g (fst kc) (rs ! i)) idx))"

text \<open>
  The cell of a record under a key, the two halves of a split field, and the row function
  of the frame that \<^verbatim>\<open>transform\<close> returns: \<open>out_cell thursday k r\<close> is the cell of column
  \<open>k\<close> computed from record \<open>r\<close>, where \<open>thursday\<close> is the name the file gives the fourth
  weekday column. \<open>prepare\<close> groups the statements of \<^verbatim>\<open>transform\<close> before the rows are
  dropped and \<open>finish\<close> those after; \<open>transform_ok\<close> collects what the input must satisfy for
  no statement to raise.
\<close>

definition record_cell :: "string \<Rightarrow> pydict \<Rightarrow> cell" where
  "record_cell k r = cell_of (map_of r k)"

definition split_cell :: "nat \<Rightarrow> string \<Rightarrow> pydict \<Rightarrow> cell" where
  "split_cell j k r = part_cell j (str_split '' - '' (record_cell k r))"

definition military :: "cell \<Rightarrow> cell" where
  "military x = (case transform_military_time x of Inr y \<Rightarrow> y | Inl e \<Rightarrow> NaN)"

definition survives :: "pydict \<Rightarrow> bool" where
  "survives r = (\<not> isna (split_cell 0 ''time'' r) \<and> \<not> isna (split_cell 1 ''time'' r))"

definition kept :: "pydict list \<Rightarrow> nat list" where
  "kept rs = filter (\<lambda>i. survives (rs ! i)) [0..<length rs]"

definition prep_cell :: "string \<Rightarrow> pydict \<Rightarrow> cell" where
  "prep_cell k r =
     (if k = ''end_time'' then split_cell 1 ''time'' r
      else if k = ''start_time'' then split_cell 0 ''time'' r
      else if k = ''end_date'' then split_cell 1 ''date_range'' r
      else if k = ''start_date'' then split_cell 0 ''date_range'' r
      else record_cell k r)"

definition out_cell :: "string \<Rightarrow> string \<Rightarrow> pydict \<Rightarrow> cell" where
  "out_cell thursday k r =
     (if k = ''building'' then str_extract (record_cell ''building'' r)
      else if k = ''friday'' then str_contains CHR ''F'' (record_cell ''day_of_week'' r)
      else if k = thursday then str_contains CHR ''R'' (record_cell ''day_of_week'' r)
      else if k = ''wednesday'' then str_contains CHR ''W'' (record_cell ''day_of_week'' r)
      else if k = ''tuesday'' then str_contains CHR ''T'' (record_cell ''day_of_week'' r)
      else if k = ''monday'' then str_contains CHR ''M'' (record_cell ''day_of_week'' r)
      else if k = ''end_time'' then military (split_cell 1 ''time'' r)
      else if k = ''start_time'' then military (split_cell 0 ''time'' r)
      else prep_cell k r)"

definition add_name :: "string \<Rightarrow> string list \<Rightarrow> string list" where
  "add_name k ns = (if k \<in> set ns then ns else ns @ [k])"

definition prep_names :: "string list \<Rightarrow> string list" where
  "prep_names ns =
     filter (\<lambda>k. k \<notin> set [''date_range'', ''time''])
       (add_name ''end_time'' (add_name ''start_time''
       (add_name ''end_date'' (add_name ''start_date''
       (filter (\<lambda>k. k \<notin> set [''attributes'', ''building_coords'', ''professors'']) ns)))))"

definition fin_names :: "string \<Rightarrow> string list \<Rightarrow> string list" where
  "fin_names thursday ns =
     filter (\<lambda>k. k \<notin> set [''day_of_week''])
       (add_name ''friday'' (add_name thursday (add_name ''wednesday''
       (add_name ''tuesday'' (add_name ''monday'' ns)))))"

definition prepare :: "pydict list \<Rightarrow> frame result" where
  "prepare course_list =
     and_then (drop_columns [''attributes'', ''building_coords'', ''professors'']
                 (DataFrame course_list)) (\<lambda>df.
     and_then (split_column ''date_range'' [''start_date'', ''end_date''] df) (\<lambda>df.
     and_then (split_column ''time'' [''start_time'', ''end_time''] df) (\<lambda>df.
     drop_columns [''date_range'', ''time''] df)))"

definition finish :: "string \<Rightarrow> frame \<Rightarrow> frame result" where
  "finish thursday df =
     and_then (apply_column ''start_time'' transform_military_time df) (\<lambda>df.
     and_then (apply_column ''end_time'' transform_military_time df) (\<lambda>df.
     and_then (contains_column ''monday'' ''day_of_week'' CHR ''M'' df) (\<lambda>df.
     and_then (contains_column ''tuesday'' ''day_of_week'' CHR ''T'' df) (\<lambda>df.
     and_then (contains_column ''wednesday'' ''day_of_week'' CHR ''W'' df) (\<lambda>df.
     and_then (contains_column thursday ''day_of_week'' CHR ''R'' df) (\<lambda>df.
     and_then (contains_column ''friday'' ''day_of_week'' CHR ''F'' df) (\<lambda>df.
     and_then (drop_columns [''day_of_week''] df) (\<lambda>df.
     extract_column ''building'' df))))))))"

definition str_or_missing :: "cell \<Rightarrow> bool" where
  "str_or_missing x = (isna x \<or> is_str x)"

definition pieces :: "string \<Rightarrow> pydict \<Rightarrow> nat" where
  "pieces k r = part_width (str_split '' - '' (record_cell k r))"

definition two_wide :: "string \<Rightarrow> pydict list \<Rightarrow> bool" where
  "two_wide k rs = ((\<forall>r \<in> set rs. pieces k r \<le> 2) \<and> (\<exists>r \<in> set rs. pieces k r = 2))"

definition parses :: "cell \<Rightarrow> bool" where
  "parses x = (case transform_military_time x of Inr y \<Rightarrow> True | Inl e \<Rightarrow> False)"

definition has_column :: "string \<Rightarrow> pydict list \<Rightarrow> bool" where
  "has_column k rs = (\<exists>r \<in> set rs. k \<in> set (map fst r))"

definition prepare_ok :: "pydict list \<Rightarrow> bool" where
  "prepare_ok rs =
     ((\<forall>k \<in> set [''attributes'', ''building_coords'', ''professors'', ''date_range'', ''time''].
         has_column k rs)
      \<and> (\<forall>r \<in> set rs. str_or_missing (record_cell ''date_range'' r)
                       \<and> str_or_missing (record_cell ''time'' r))
      \<and> two_wide ''date_range'' rs \<and> two_wide ''time'' rs)"

definition finish_ok :: "pydict list \<Rightarrow> bool" where
  "finish_ok rs =
     (has_column ''day_of_week'' rs \<and> has_column ''building'' rs
      \<and> (\<forall>r \<in> set rs. survives r \<longrightarrow>
            parses (split_cell 0 ''time'' r) \<and> parses (split_cell 1 ''time'' r)
            \<and> str_or_missing (record_cell ''day_of_week'' r)
            \<and> str_or_missing (record_cell ''building'' r)))"

definition transform_ok :: "pydict list \<Rightarrow> bool" where
  "transform_ok rs = (prepare_ok rs \<and> finish_ok rs)"

definition out_frame :: "string \<Rightarrow> pydict list \<Rightarrow> frame" where
  "out_frame thursday rs =
     \<lparr>index = kept rs,
      columns = map (\<lambda>k. (k, map (\<lambda>i. out_cell thursday k (rs ! i)) (kept rs)))
                  (fin_names thursday (prep_names (first_seen (concat (map (map fst) rs)))))\<rparr>"

section \<open>Example data\<close>

text \<open>
  The record that the flattener emits for the end-to-end scenario: course \<^verbatim>\<open>CS 1331\<close>,
  section \<^verbatim>\<open>A\<close>, one meeting on Monday, Wednesday and Friday.
\<close>

definition record_mwf :: pydict where
  "record_mwf =
     [(''crn'', PStr ''12345''), (''name'', PStr ''CS 1331''),
      (''actual_name'', PStr ''Object-Oriented Programming''), (''section'', PStr ''A''),
      (''time'', PStr ''0800 - 0915''), (''day_of_week'', PStr ''MWF''),
      (''building'', PStr ''Clough G25''), (''building_coords'', PNone),
      (''professors'', PList []), (''date_range'', PStr ''2025-01-06 - 2025-05-02''),
      (''credits'', PInt 3), (''schedule_type'', PStr ''Lecture''),
      (''campus'', PStr ''Atlanta''), (''attributes'', PNone)]"

fun is_string_value :: "pyval option \<Rightarrow> bool" where
  "is_string_value None = True"
| "is_string_value (Some (PStr s)) = True"
| "is_string_value (Some v) = False"

definition str_typed :: "pydict list \<Rightarrow> bool" where
  "str_typed rs =
     (\<forall>r \<in> set rs. \<forall>k \<in> set [''date_range'', ''time'', ''day_of_week'', ''building''].
        is_string_value (map_of r k))"


definition record_tba :: pydict where
  "record_tba = dict_set ''date_range'' (PStr ''TBA'') record_mwf"

definition frame_mwf :: "string \<Rightarrow> frame" where
  "frame_mwf thursday =
     \<lparr>index = [0],
      columns =
        [(''crn'', [Obj (PStr ''12345'')]), (''name'', [Obj (PStr ''CS 1331'')]),
         (''actual_name'', [Obj (PStr ''Object-Oriented Programming'')]),
         (''section'', [Obj (PStr ''A'')]), (''building'', [Obj (PStr ''Clough'')]),
         (''credits'', [Obj (PInt 3)]), (''schedule_type'', [Obj (PStr ''Lecture'')]),
         (''campus'', [Obj (PStr ''Atlanta'')]), (''start_date'', [Obj (PStr ''2025-01-06'')]),
         (''end_date'', [Obj (PStr ''2025-05-02'')]), (''start_time'', [Time 8 0]),
         (''end_time'', [Time 9 15]), (''monday'', [Obj (PBool True)]),
         (''tuesday'', [Obj (PBool False)]), (''wednesday'', [Obj (PBool True)]),
         (thursday, [Obj (PBool False)]), (''friday'', [Obj (PBool True)])]\<rparr>"


definition record_time_tba :: pydict where
  "record_time_tba = dict_set ''time'' (PStr ''TBA'') record_mwf"

definition records_three :: "pydict list" where
  "records_three = [record_mwf, record_tba, record_time_tba]"

definition room_code_after :: "string \<Rightarrow> string \<Rightarrow> bool" where
  "room_code_after g s =
     (\<exists>tok d rest. s = g @ CHR '' '' # tok @ d # rest \<and> tok \<noteq> []
        \<and> (\<forall>c \<in> set tok. word_char c) \<and> is_digit d)"

definition record_annex :: pydict where
  "record_annex = dict_set ''building'' (PStr ''Clough G25 Annex'') record_mwf"

definition without_attributes :: "pydict \<Rightarrow> pydict" where
  "without_attributes r = filter (\<lambda>kv. fst kv \<noteq> ''attributes'') r"

text \<open>
  The records of one course, and the (course key, section key, sections) triples that the
  two loops visit, in order: for a document of the data model these are its (course,
  section) pairs in input order.
\<close>

definition course_records ::
  "(pyval \<Rightarrow> pyval \<Rightarrow> pyval \<Rightarrow> pydict result) \<Rightarrow> pyval \<Rightarrow> pyval \<Rightarrow> pydict list result" where
  "course_records body courses i =
     and_then (py_getitem courses i) (\<lambda>course.
     and_then (py_getitem course (PInt 1)) (\<lambda>sections.
     and_then (py_iter sections) (\<lambda>ls.
     comprehension (body i sections) ls)))"



definition example_caches :: pyval where
  "example_caches =
     PDict [(''periods'', PList [PStr ''0800 - 0915'']), (''locations'', PList [PNone]),
            (''dateRanges'', PList [PStr ''2025-01-06 - 2025-05-02'']),
            (''scheduleTypes'', PList [PStr ''Lecture'']), (''campuses'', PList [PStr ''Atlanta'']),
            (''attributes'', PList [PStr ''Honors'', PStr ''Ethics''])]"

definition section_a :: pyval where
  "section_a =
     PList [PStr ''12345'',
            PList [PList [PInt 0, PStr ''MWF'', PStr ''Clough G25'', PInt 0, PList [], PInt 0]],
            PInt 3, PInt 0, PInt 0, PList []]"

definition section_b :: pyval where
  "section_b = PList [PStr ''12346'', PList [], PInt 3, PInt 0, PInt 0, PList [PInt 0, PInt 1]]"

definition example_doc :: pyval where
  "example_doc =
     PDict [(''courses'',
             PDict [(''CS 1331'',
                     PList [PStr ''Object-Oriented Programming'',
                            PDict [(''A'', section_a), (''B'', section_b)]])]),
            (''caches'', example_caches)]"


text \<open>
  The pieces into which the separator \<^verbatim>\<open>" - "\<close> splits the string that a record holds under
  a key (none when the record has no string there), and the condition under which the
  assignment of the split to two columns is accepted: no record has more than two pieces
  and some record has exactly two.
\<close>

definition field_pieces :: "string \<Rightarrow> pydict \<Rightarrow> string list" where
  "field_pieces k r = (case map_of r k of Some (PStr s) \<Rightarrow> split_on '' - '' [] s | _ \<Rightarrow> [])"


text \<open>
  Variants of the scenario's record: a raw building without a room code, the raw building
  of the building example, a time whose start is the superscript two, and a raw building
  with accented letters (\<^verbatim>\<open>Caf\<close>, e acute, space, E acute, \<^verbatim>\<open>1\<close>).
\<close>

definition record_online :: pydict where
  "record_online = dict_set ''building'' (PStr ''Online'') record_mwf"

definition record_commons :: pydict where
  "record_commons =
     dict_set ''building'' (PStr ''Clough Undergraduate Learning Commons G25'') record_mwf"

definition record_superscript :: pydict where
  "record_superscript = dict_set ''time'' (PStr (CHR 0xB2 # '' - 0915'')) record_mwf"

definition record_accented :: pydict where
  "record_accented =
     dict_set ''building'' (PStr (''Caf'' @ [CHR 0xE9, CHR '' '', CHR 0xC9, CHR ''1''])) record_mwf"


definition records_buildings :: "pydict list" where
  "records_buildings = [record_commons, record_online]"



section \<open>Properties\<close>

subsection \<open>Sequencing, loops and frames\<close>

lemma and_then_simps [simp]:
  "and_then (Inr x) f = f x" "and_then (Inl e) f = Inl e"
  by (simp_all add: and_then_def)

lemma and_then_Inr_iff: "and_then m f = Inr y \<longleftrightarrow> (\<exists>x. m = Inr x \<and> f x = Inr y)"
  by (cases m) simp_all

lemma and_then_Inl_iff: "and_then m f = Inl e \<longleftrightarrow> m = Inl e \<or> (\<exists>x. m = Inr x \<and> f x = Inl e)"
  by (cases m) simp_all

lemma and_thenE:
  assumes "and_then m f = Inr y"
  obtains x where "m = Inr x" "f x = Inr y"
  using assms by (auto simp: and_then_Inr_iff)

lemma comprehension_Inr_iff:
  "comprehension f xs = Inr ys \<longleftrightarrow> list_all2 (\<lambda>x y. f x = Inr y) xs ys"
proof (induction xs arbitrary: ys)
  case Nil
  show ?case by auto
next
  case (Cons x xs)
  show ?case
  proof (cases "comprehension f xs")
    case (Inl e)
    with Cons.IH show ?thesis
      by (cases ys) (auto split: sum.splits)
  next
    case (Inr zs)
    with Cons.IH [of zs] Cons.IH show ?thesis
      by (cases ys) (auto split: sum.splits)
  qed
qed

lemma distinct_first_seen: "distinct (first_seen xs)"
  by (simp add: first_seen_def)

lemma set_first_seen: "set (first_seen xs) = set xs"
  by (simp add: first_seen_def)

lemma names_DataFrame: "map fst (columns (DataFrame rs)) = first_seen (concat (map (map fst) rs))"
  by (simp add: DataFrame_def comp_def)

lemma map_by_position: "map f rs = map (\<lambda>i. f (rs ! i)) [0..<length rs]"
  by (rule nth_equalityI) simp_all

lemma frame_of_DataFrame:
  "frame_of (DataFrame rs) rs [0..<length rs] (\<lambda>k r. cell_of (map_of r k))"
proof -
  have "map (\<lambda>r. cell_of (map_of r k)) rs = map (\<lambda>i. cell_of (map_of (rs ! i) k)) [0..<length rs]" for k
    by (rule map_by_position)
  then show ?thesis
    unfolding frame_of_def by (simp add: DataFrame_def comp_def distinct_first_seen)
qed

lemma drop_columns_Inr:
  assumes "drop_columns ls df = Inr df'"
  shows "index df' = index df"
    and "map fst (columns df') = filter (\<lambda>k. k \<notin> set ls) (map fst (columns df))"
    and "set ls \<subseteq> set (map fst (columns df))"
    and "frame_of df rs idx g \<Longrightarrow> frame_of df' rs idx g"
proof -
  from assms have sub: "set ls \<subseteq> set (map fst (columns df))"
    and eq: "df' = df\<lparr>columns := filter (\<lambda>c. fst c \<notin> set ls) (columns df)\<rparr>"
    by (simp_all add: drop_columns_def split: if_splits)
  show "index df' = index df" by (simp add: eq)
  show "map fst (columns df') = filter (\<lambda>k. k \<notin> set ls) (map fst (columns df))"
    by (simp add: eq filter_map comp_def)
  show "set ls \<subseteq> set (map fst (columns df))" by (rule sub)
  show "frame_of df rs idx g \<Longrightarrow> frame_of df' rs idx g"
    by (simp add: eq frame_of_def distinct_map_filter)
qed

lemma get_column_Inr_iff:
  assumes "distinct (map fst (columns df))"
  shows "get_column df k = Inr c \<longleftrightarrow> (k, c) \<in> set (columns df)"
  unfolding get_column_def using map_of_eq_Some_iff [OF assms, of k c]
  by (cases "map_of (columns df) k") simp_all

lemma get_column_frame_of:
  assumes "frame_of df rs idx g" "get_column df k = Inr c"
  shows "c = map (\<lambda>i. g k (rs ! i)) idx"
  using assms by (fastforce simp: frame_of_def get_column_Inr_iff)

lemma get_column_exists:
  "k \<in> set (map fst (columns df)) \<Longrightarrow> \<exists>c. get_column df k = Inr c"
  by (auto simp: get_column_def split: option.splits simp: map_of_eq_None_iff)

lemma get_column_Inr_mem: "get_column df k = Inr c \<Longrightarrow> k \<in> set (map fst (columns df))"
proof -
  assume "get_column df k = Inr c"
  then have "map_of (columns df) k = Some c"
    by (cases "map_of (columns df) k") (simp_all add: get_column_def)
  then have "(k, c) \<in> set (columns df)" by (rule map_of_SomeD)
  then show ?thesis by force
qed

lemma get_column_Inl: "get_column df k = Inl e \<Longrightarrow> e = KeyError \<and> k \<notin> set (map fst (columns df))"
  by (auto simp: get_column_def split: option.splits simp: map_of_eq_None_iff)

lemma set_update_subset:
  "distinct (map fst al) \<Longrightarrow> set (AList.update k v al) = insert (k, v) {kc \<in> set al. fst kc \<noteq> k}"
proof (induction al)
  case Nil
  show ?case by simp
next
  case (Cons a al)
  obtain k' v' where a: "a = (k', v')" by (cases a)
  from Cons.prems have "k' \<notin> fst ` set al" by (simp add: a)
  then have "\<And>w. (k', w) \<notin> set al" by (metis fst_conv image_eqI)
  with Cons show ?case by (auto simp: a)
qed

lemma names_update: "map fst (AList.update k v al) = (if k \<in> set (map fst al) then map fst al else map fst al @ [k])"
  by (simp add: update_keys image_iff)

lemma names_set_column:
  "map fst (columns (set_column k c df)) =
     (if k \<in> set (map fst (columns df)) then map fst (columns df) else map fst (columns df) @ [k])"
  unfolding set_column_def by (simp add: names_update del: set_map)

lemma index_set_column [simp]: "index (set_column k c df) = index df"
  by (simp add: set_column_def)

lemma frame_of_set_column:
  assumes "frame_of df rs idx g" "c = map (\<lambda>i. h (rs ! i)) idx"
  shows "frame_of (set_column k c df) rs idx (g(k := h))"
proof -
  from assms have d: "distinct (map fst (columns df))" by (simp add: frame_of_def)
  show ?thesis
    using assms unfolding frame_of_def set_column_def
    by (simp add: set_update_subset [OF d] distinct_update)
qed


lemma set_columns_two:
  "set_columns [a, b] val df = Inr df' \<longleftrightarrow>
     (\<exists>c1 c2. val = [c1, c2] \<and> df' = set_column b c2 (set_column a c1 df))"
proof (cases val)
  case Nil
  then show ?thesis by (simp add: set_columns_def)
next
  case (Cons c1 val1)
  note c1 = this
  show ?thesis
  proof (cases val1)
    case Nil
    with c1 show ?thesis by (simp add: set_columns_def)
  next
    case (Cons c2 val2)
    with c1 show ?thesis by (cases val2) (auto simp: set_columns_def)
  qed
qed

lemma set_columns_Inl: "set_columns keys val df = Inl e \<Longrightarrow> e = ValueError \<and> length val \<noteq> length keys"
  by (simp add: set_columns_def split: if_splits)

lemma fold_max_eq: "fold max xs (a::nat) = Max (insert a (set xs))"
  using Max.set_eq_fold [of a xs] by simp

lemma length_str_split_expand:
  "length (str_split_expand sep c) = Max (insert 0 (set (map (\<lambda>x. part_width (str_split sep x)) c)))"
  by (simp add: str_split_expand_def Let_def fold_max_eq image_image)

lemma nth_str_split_expand:
  "j < length (str_split_expand sep c) \<Longrightarrow>
     str_split_expand sep c ! j = map (\<lambda>x. part_cell j (str_split sep x)) c"
  by (simp add: str_split_expand_def Let_def comp_def)

lemma str_split_expand_two:
  assumes "str_split_expand sep c = [c1, c2]"
  shows "c1 = map (\<lambda>x. part_cell 0 (str_split sep x)) c"
    and "c2 = map (\<lambda>x. part_cell 1 (str_split sep x)) c"
  using nth_str_split_expand [of 0 sep c] nth_str_split_expand [of 1 sep c] assms
  by simp_all

lemma str_accessor_Inr_iff:
  "str_accessor c = Inr c' \<longleftrightarrow> c' = c \<and> (\<forall>x \<in> set c. isna x \<or> is_str x)"
  by (auto simp: str_accessor_def)

lemma str_accessor_Inl: "str_accessor c = Inl e \<Longrightarrow> e = AttributeError"
  by (simp add: str_accessor_def split: if_splits)

lemma split_column_Inr:
  assumes "split_column src [a, b] df = Inr df'" and fo: "frame_of df rs idx g"
  shows "frame_of df' rs idx
           (g(a := \<lambda>r. part_cell 0 (str_split '' - '' (g src r)),
              b := \<lambda>r. part_cell 1 (str_split '' - '' (g src r))))"
    and "df' = set_column b (map (\<lambda>i. part_cell 1 (str_split '' - '' (g src (rs ! i)))) idx)
                 (set_column a (map (\<lambda>i. part_cell 0 (str_split '' - '' (g src (rs ! i)))) idx) df)"
    and "src \<in> set (map fst (columns df))"
    and "\<forall>i \<in> set idx. isna (g src (rs ! i)) \<or> is_str (g src (rs ! i))"
    and "Max (insert 0 (set (map (\<lambda>i. part_width (str_split '' - '' (g src (rs ! i)))) idx))) = 2"
proof -
  from assms(1) obtain c c1 c2 where c: "get_column df src = Inr c"
    and acc: "\<forall>x \<in> set c. isna x \<or> is_str x"
    and ex: "str_split_expand '' - '' c = [c1, c2]"
    and df': "df' = set_column b c2 (set_column a c1 df)"
    by (auto simp: split_column_def and_then_Inr_iff str_accessor_Inr_iff set_columns_two)
  have ceq: "c = map (\<lambda>i. g src (rs ! i)) idx"
    by (rule get_column_frame_of [OF fo c])
  have c1: "c1 = map (\<lambda>i. part_cell 0 (str_split '' - '' (g src (rs ! i)))) idx"
    and c2: "c2 = map (\<lambda>i. part_cell 1 (str_split '' - '' (g src (rs ! i)))) idx"
    using str_split_expand_two [OF ex] by (simp_all add: ceq comp_def)
  show "df' = set_column b (map (\<lambda>i. part_cell 1 (str_split '' - '' (g src (rs ! i)))) idx)
                 (set_column a (map (\<lambda>i. part_cell 0 (str_split '' - '' (g src (rs ! i)))) idx) df)"
    by (simp add: df' c1 c2)
  have "frame_of (set_column a c1 df) rs idx (g(a := \<lambda>r. part_cell 0 (str_split '' - '' (g src r))))"
    by (rule frame_of_set_column [OF fo]) (simp add: c1)
  then show "frame_of df' rs idx
           (g(a := \<lambda>r. part_cell 0 (str_split '' - '' (g src r)),
              b := \<lambda>r. part_cell 1 (str_split '' - '' (g src r))))"
    unfolding df' by (rule frame_of_set_column) (simp add: c2)
  show "src \<in> set (map fst (columns df))"
    by (rule get_column_Inr_mem [OF c])
  show "\<forall>i \<in> set idx. isna (g src (rs ! i)) \<or> is_str (g src (rs ! i))"
    using acc by (simp add: ceq)
  have "length (str_split_expand '' - '' c) = 2" by (simp add: ex)
  then show "Max (insert 0 (set (map (\<lambda>i. part_width (str_split '' - '' (g src (rs ! i)))) idx))) = 2"
    by (simp add: length_str_split_expand ceq image_image)
qed


lemma filter_by_position:
  "map (\<lambda>p. xs ! p) (filter (\<lambda>p. P (xs ! p)) [0..<length xs]) = filter P xs"
proof -
  have "filter P xs = filter P (map (\<lambda>p. xs ! p) [0..<length xs])"
    by (simp add: map_nth)
  also have "\<dots> = map (\<lambda>p. xs ! p) (filter (P \<circ> (\<lambda>p. xs ! p)) [0..<length xs])"
    by (rule filter_map)
  finally show ?thesis by (simp add: comp_def)
qed

lemma names_take_rows [simp]: "map fst (columns (take_rows keep df)) = map fst (columns df)"
  by (simp add: take_rows_def comp_def)

lemma frame_of_take_rows:
  assumes fo: "frame_of df rs idx g" and keep: "set keep \<subseteq> {0..<length idx}"
  shows "frame_of (take_rows keep df) rs (map (\<lambda>p. idx ! p) keep) g"
proof -
  from fo have i: "index df = idx" and d: "distinct (map fst (columns df))"
    and c: "\<And>kc. kc \<in> set (columns df) \<Longrightarrow> snd kc = map (\<lambda>i. g (fst kc) (rs ! i)) idx"
    by (simp_all add: frame_of_def)
  have "map (\<lambda>p. snd kc ! p) keep = map (\<lambda>i. g (fst kc) (rs ! i)) (map (\<lambda>p. idx ! p) keep)"
    if "kc \<in> set (columns df)" for kc
  proof -
    have "snd kc ! p = g (fst kc) (rs ! (idx ! p))" if "p \<in> set keep" for p
    proof -
      from that keep have "p < length idx" by auto
      then show ?thesis by (simp add: c [OF \<open>kc \<in> set (columns df)\<close>])
    qed
    then show ?thesis by (simp add: comp_def)
  qed
  then show ?thesis
    unfolding frame_of_def take_rows_def using d i by (auto simp: comp_def)
qed

lemma comprehension_two:
  "comprehension f [a, b] = Inr cs \<longleftrightarrow> (\<exists>x y. f a = Inr x \<and> f b = Inr y \<and> cs = [x, y])"
  by (auto split: sum.splits)

lemma dropna_Inr:
  assumes "dropna [a, b] df = Inr df'" and fo: "frame_of df rs idx g"
  shows "frame_of df' rs (filter (\<lambda>i. \<not> isna (g a (rs ! i)) \<and> \<not> isna (g b (rs ! i))) idx) g"
    and "map fst (columns df') = map fst (columns df)"
proof -
  from fo have i: "index df = idx" by (simp add: frame_of_def)
  from assms(1) obtain cs where cs: "comprehension (get_column df) [a, b] = Inr cs"
    and df'0: "df' = take_rows (filter (\<lambda>p. \<forall>c \<in> set cs. \<not> isna (c ! p)) [0..<length idx]) df"
    unfolding dropna_def and_then_Inr_iff i by auto
  from cs [unfolded comprehension_two] obtain ca cb
    where ca: "get_column df a = Inr ca" and cb: "get_column df b = Inr cb" and cseq: "cs = [ca, cb]"
    by auto
  have df': "df' = take_rows (filter (\<lambda>p. \<not> isna (ca ! p) \<and> \<not> isna (cb ! p)) [0..<length idx]) df"
    by (simp add: df'0 cseq)
  have caeq: "ca = map (\<lambda>i. g a (rs ! i)) idx" by (rule get_column_frame_of [OF fo ca])
  have cbeq: "cb = map (\<lambda>i. g b (rs ! i)) idx" by (rule get_column_frame_of [OF fo cb])
  let ?P = "\<lambda>i. \<not> isna (g a (rs ! i)) \<and> \<not> isna (g b (rs ! i))"
  have keep: "filter (\<lambda>p. \<not> isna (ca ! p) \<and> \<not> isna (cb ! p)) [0..<length idx]
                = filter (\<lambda>p. ?P (idx ! p)) [0..<length idx]"
    by (rule filter_cong) (simp_all add: caeq cbeq)
  have "frame_of df' rs (map (\<lambda>p. idx ! p) (filter (\<lambda>p. ?P (idx ! p)) [0..<length idx])) g"
    unfolding df' keep by (rule frame_of_take_rows [OF fo]) auto
  then show "frame_of df' rs (filter ?P idx) g"
    by (simp only: filter_by_position [of idx ?P])
  show "map fst (columns df') = map fst (columns df)" by (simp add: df')
qed

lemma dropna_ok:
  assumes "a \<in> set (map fst (columns df))" "b \<in> set (map fst (columns df))"
  shows "\<exists>df'. dropna [a, b] df = Inr df'"
proof -
  from get_column_exists [OF assms(1)] obtain ca where "get_column df a = Inr ca" ..
  moreover from get_column_exists [OF assms(2)] obtain cb where "get_column df b = Inr cb" ..
  ultimately show ?thesis by (simp add: dropna_def)
qed

lemma drop_rows_isna_eq_dropna:
  assumes fo: "frame_of df rs idx g"
  shows "and_then (isna_any_index [a, b] df) (\<lambda>labels. drop_rows labels df) = dropna [a, b] df"
proof (cases "comprehension (get_column df) [a, b]")
  case (Inl e)
  then show ?thesis by (simp add: isna_any_index_def dropna_def del: comprehension.simps)
next
  case (Inr cs)
  from Inr [unfolded comprehension_two] obtain ca cb
    where ca: "get_column df a = Inr ca" and cb: "get_column df b = Inr cb" and cs: "cs = [ca, cb]"
    by auto
  from fo have i: "index df = idx" by (simp add: frame_of_def)
  have caeq: "ca = map (\<lambda>i. g a (rs ! i)) idx" by (rule get_column_frame_of [OF fo ca])
  have cbeq: "cb = map (\<lambda>i. g b (rs ! i)) idx" by (rule get_column_frame_of [OF fo cb])
  let ?Q = "\<lambda>i. isna (g a (rs ! i)) \<or> isna (g b (rs ! i))"
  have bad: "filter (\<lambda>p. isna (ca ! p) \<or> isna (cb ! p)) [0..<length idx]
               = filter (\<lambda>p. ?Q (idx ! p)) [0..<length idx]"
    by (rule filter_cong) (simp_all add: caeq cbeq)
  have labels: "isna_any_index [a, b] df = Inr (filter ?Q idx)"
    using filter_by_position [of idx ?Q]
    by (simp add: isna_any_index_def Inr cs i bad del: comprehension.simps)
  have good: "filter (\<lambda>p. idx ! p \<notin> set (filter ?Q idx)) [0..<length idx]
                = filter (\<lambda>p. \<not> isna (ca ! p) \<and> \<not> isna (cb ! p)) [0..<length idx]"
    by (rule filter_cong) (auto simp: caeq cbeq)
  have dr: "drop_rows labels df
              = Inr (take_rows (filter (\<lambda>p. idx ! p \<notin> set labels) [0..<length idx]) df)"
    if "set labels \<subseteq> set idx" for labels
    using that by (simp add: drop_rows_def i)
  have dr': "drop_rows (filter ?Q idx) df
              = Inr (take_rows (filter (\<lambda>p. idx ! p \<notin> set (filter ?Q idx)) [0..<length idx]) df)"
    by (rule dr) auto
  have lhs: "and_then (isna_any_index [a, b] df) (\<lambda>labels. drop_rows labels df)
              = Inr (take_rows (filter (\<lambda>p. \<not> isna (ca ! p) \<and> \<not> isna (cb ! p)) [0..<length idx]) df)"
    unfolding labels and_then_simps dr' good ..
  have rhs: "dropna [a, b] df
              = Inr (take_rows (filter (\<lambda>p. \<not> isna (ca ! p) \<and> \<not> isna (cb ! p)) [0..<length idx]) df)"
    by (simp add: dropna_def Inr cs i del: comprehension.simps)
  show ?thesis by (simp only: lhs rhs)
qed

lemma apply_column_Inr:
  assumes "apply_column k f df = Inr df'" and fo: "frame_of df rs idx g"
  shows "frame_of df' rs idx (g(k := \<lambda>r. case f (g k r) of Inr y \<Rightarrow> y | Inl e \<Rightarrow> NaN))"
    and "map fst (columns df') = map fst (columns df)"
    and "\<forall>i \<in> set idx. \<exists>y. f (g k (rs ! i)) = Inr y"
proof -
  from assms(1) obtain c c' where c: "get_column df k = Inr c"
    and c': "list_all2 (\<lambda>x y. f x = Inr y) c c'" and df': "df' = set_column k c' df"
    by (auto simp: apply_column_def apply_series_def and_then_Inr_iff comprehension_Inr_iff)
  have ceq: "c = map (\<lambda>i. g k (rs ! i)) idx" by (rule get_column_frame_of [OF fo c])
  from c' have len: "length c' = length idx" and nth: "\<And>p. p < length idx \<Longrightarrow> f (c ! p) = Inr (c' ! p)"
    by (auto simp: list_all2_conv_all_nth ceq)
  have c'eq: "c' = map (\<lambda>i. case f (g k (rs ! i)) of Inr y \<Rightarrow> y | Inl e \<Rightarrow> NaN) idx"
  proof (rule nth_equalityI)
    show "length c' = length (map (\<lambda>i. case f (g k (rs ! i)) of Inr y \<Rightarrow> y | Inl e \<Rightarrow> NaN) idx)"
      by (simp add: len)
    fix p assume "p < length c'"
    then have p: "p < length idx" by (simp add: len)
    from nth [OF p] show "c' ! p = map (\<lambda>i. case f (g k (rs ! i)) of Inr y \<Rightarrow> y | Inl e \<Rightarrow> NaN) idx ! p"
      by (simp add: ceq p)
  qed
  show "frame_of df' rs idx (g(k := \<lambda>r. case f (g k r) of Inr y \<Rightarrow> y | Inl e \<Rightarrow> NaN))"
    unfolding df' by (rule frame_of_set_column [OF fo c'eq])
  show "map fst (columns df') = map fst (columns df)"
    using get_column_Inr_mem [OF c] by (simp add: df' names_set_column del: set_map)
  show "\<forall>i \<in> set idx. \<exists>y. f (g k (rs ! i)) = Inr y"
  proof
    fix i assume "i \<in> set idx"
    then obtain p where p: "p < length idx" and ip: "idx ! p = i" by (auto simp: in_set_conv_nth)
    from nth [OF p] show "\<exists>y. f (g k (rs ! i)) = Inr y" by (auto simp: ceq p ip)
  qed
qed

lemma apply_column_ok:
  assumes fo: "frame_of df rs idx g" and k: "k \<in> set (map fst (columns df))"
    and ok: "\<forall>i \<in> set idx. \<exists>y. f (g k (rs ! i)) = Inr y"
  shows "\<exists>df'. apply_column k f df = Inr df'"
proof -
  from get_column_exists [OF k] obtain c where c: "get_column df k = Inr c" ..
  have ceq: "c = map (\<lambda>i. g k (rs ! i)) idx" by (rule get_column_frame_of [OF fo c])
  have "f (g k (rs ! i)) = Inr (case f (g k (rs ! i)) of Inr y \<Rightarrow> y | Inl e \<Rightarrow> NaN)"
    if "i \<in> set idx" for i
  proof -
    from ok that obtain y where "f (g k (rs ! i)) = Inr y" by blast
    then show ?thesis by simp
  qed
  then have "list_all2 (\<lambda>x y. f x = Inr y) c (map (\<lambda>x. case f x of Inr y \<Rightarrow> y | Inl e \<Rightarrow> NaN) c)"
    by (simp add: list_all2_conv_all_nth ceq)
  then have "comprehension f c = Inr (map (\<lambda>x. case f x of Inr y \<Rightarrow> y | Inl e \<Rightarrow> NaN) c)"
    by (simp add: comprehension_Inr_iff)
  then show ?thesis by (simp add: apply_column_def apply_series_def c)
qed

lemma contains_column_Inr:
  assumes "contains_column dst src pat df = Inr df'" and fo: "frame_of df rs idx g"
  shows "frame_of df' rs idx (g(dst := \<lambda>r. str_contains pat (g src r)))"
    and "df' = set_column dst (map (\<lambda>i. str_contains pat (g src (rs ! i))) idx) df"
    and "src \<in> set (map fst (columns df))"
    and "\<forall>i \<in> set idx. isna (g src (rs ! i)) \<or> is_str (g src (rs ! i))"
proof -
  from assms(1) obtain c where c: "get_column df src = Inr c"
    and acc: "\<forall>x \<in> set c. isna x \<or> is_str x"
    and df': "df' = set_column dst (map (str_contains pat) c) df"
    by (auto simp: contains_column_def and_then_Inr_iff str_accessor_Inr_iff)
  have ceq: "c = map (\<lambda>i. g src (rs ! i)) idx" by (rule get_column_frame_of [OF fo c])
  show eq: "df' = set_column dst (map (\<lambda>i. str_contains pat (g src (rs ! i))) idx) df"
    by (simp add: df' ceq comp_def)
  show "frame_of df' rs idx (g(dst := \<lambda>r. str_contains pat (g src r)))"
    unfolding eq by (rule frame_of_set_column [OF fo]) simp
  show "src \<in> set (map fst (columns df))" by (rule get_column_Inr_mem [OF c])
  show "\<forall>i \<in> set idx. isna (g src (rs ! i)) \<or> is_str (g src (rs ! i))"
    using acc by (simp add: ceq)
qed

lemma extract_column_Inr:
  assumes "extract_column k df = Inr df'" and fo: "frame_of df rs idx g"
  shows "frame_of df' rs idx (g(k := \<lambda>r. str_extract (g k r)))"
    and "map fst (columns df') = map fst (columns df)"
    and "\<forall>i \<in> set idx. isna (g k (rs ! i)) \<or> is_str (g k (rs ! i))"
proof -
  from assms(1) obtain c where c: "get_column df k = Inr c"
    and acc: "\<forall>x \<in> set c. isna x \<or> is_str x"
    and df': "df' = set_column k (map str_extract c) df"
    by (auto simp: extract_column_def and_then_Inr_iff str_accessor_Inr_iff)
  have ceq: "c = map (\<lambda>i. g k (rs ! i)) idx" by (rule get_column_frame_of [OF fo c])
  have eq: "df' = set_column k (map (\<lambda>i. str_extract (g k (rs ! i))) idx) df"
    by (simp add: df' ceq comp_def)
  show "frame_of df' rs idx (g(k := \<lambda>r. str_extract (g k r)))"
    unfolding eq by (rule frame_of_set_column [OF fo]) simp
  show "map fst (columns df') = map fst (columns df)"
    using get_column_Inr_mem [OF c] by (simp add: df' names_set_column del: set_map)
  show "\<forall>i \<in> set idx. isna (g k (rs ! i)) \<or> is_str (g k (rs ! i))"
    using acc by (simp add: ceq)
qed

lemma names_set_column': "map fst (columns (set_column k c df)) = add_name k (map fst (columns df))"
  by (simp only: names_set_column add_name_def)

lemma split_column_names:
  assumes "split_column src [a, b] df = Inr df'"
  shows "map fst (columns df') = add_name b (add_name a (map fst (columns df)))"
proof -
  from assms obtain c1 c2 where "df' = set_column b c2 (set_column a c1 df)"
    by (auto simp: split_column_def and_then_Inr_iff set_columns_two)
  then show ?thesis by (simp only: names_set_column')
qed

lemma contains_column_names:
  assumes "contains_column dst src pat df = Inr df'"
  shows "map fst (columns df') = add_name dst (map fst (columns df))"
proof -
  from assms obtain c where "df' = set_column dst c df"
    by (auto simp: contains_column_def and_then_Inr_iff)
  then show ?thesis by (simp only: names_set_column')
qed

lemma frame_of_cong:
  assumes "frame_of df rs idx g" "idx = idx'" "\<And>k r. g k r = g' k r"
  shows "frame_of df rs idx' g'"
proof -
  from assms(3) have "g = g'" by (intro ext)
  with assms(1,2) show ?thesis by simp
qed

lemma drop_columns_ok:
  "set ls \<subseteq> set (map fst (columns df)) \<Longrightarrow> \<exists>df'. drop_columns ls df = Inr df'"
  by (simp add: drop_columns_def)

lemma split_column_ok:
  assumes fo: "frame_of df rs idx g" and src: "src \<in> set (map fst (columns df))"
    and acc: "\<forall>i \<in> set idx. isna (g src (rs ! i)) \<or> is_str (g src (rs ! i))"
    and wide: "Max (insert 0 (set (map (\<lambda>i. part_width (str_split '' - '' (g src (rs ! i)))) idx))) = 2"
  shows "\<exists>df'. split_column src [a, b] df = Inr df'"
proof -
  from get_column_exists [OF src] obtain c where c: "get_column df src = Inr c" ..
  have ceq: "c = map (\<lambda>i. g src (rs ! i)) idx" by (rule get_column_frame_of [OF fo c])
  have a: "str_accessor c = Inr c" using acc by (simp add: str_accessor_def ceq)
  have "length (str_split_expand '' - '' c) = 2"
    using wide by (simp add: length_str_split_expand ceq image_image)
  then have "\<exists>df'. set_columns [a, b] (str_split_expand '' - '' c) df = Inr df'"
    by (simp add: set_columns_def)
  then show ?thesis by (simp add: split_column_def c a)
qed

lemma contains_column_ok:
  assumes fo: "frame_of df rs idx g" and src: "src \<in> set (map fst (columns df))"
    and acc: "\<forall>i \<in> set idx. isna (g src (rs ! i)) \<or> is_str (g src (rs ! i))"
  shows "\<exists>df'. contains_column dst src pat df = Inr df'"
proof -
  from get_column_exists [OF src] obtain c where c: "get_column df src = Inr c" ..
  have ceq: "c = map (\<lambda>i. g src (rs ! i)) idx" by (rule get_column_frame_of [OF fo c])
  have a: "str_accessor c = Inr c" using acc by (simp add: str_accessor_def ceq)
  show ?thesis by (simp add: contains_column_def c a)
qed

lemma extract_column_ok:
  assumes fo: "frame_of df rs idx g" and src: "k \<in> set (map fst (columns df))"
    and acc: "\<forall>i \<in> set idx. isna (g k (rs ! i)) \<or> is_str (g k (rs ! i))"
  shows "\<exists>df'. extract_column k df = Inr df'"
proof -
  from get_column_exists [OF src] obtain c where c: "get_column df k = Inr c" ..
  have ceq: "c = map (\<lambda>i. g k (rs ! i)) idx" by (rule get_column_frame_of [OF fo c])
  have a: "str_accessor c = Inr c" using acc by (simp add: str_accessor_def ceq)
  show ?thesis by (simp add: extract_column_def c a)
qed

lemma frame_of_eq:
  assumes "frame_of df rs idx g"
  shows "df = \<lparr>index = idx, columns = map (\<lambda>k. (k, map (\<lambda>i. g k (rs ! i)) idx)) (map fst (columns df))\<rparr>"
proof -
  from assms have i: "index df = idx"
    and c: "\<And>kc. kc \<in> set (columns df) \<Longrightarrow> snd kc = map (\<lambda>i. g (fst kc) (rs ! i)) idx"
    by (simp_all add: frame_of_def)
  have "map (\<lambda>kc. (fst kc, map (\<lambda>i. g (fst kc) (rs ! i)) idx)) (columns df) = map (\<lambda>kc. kc) (columns df)"
    by (rule map_cong) (auto simp: c [symmetric])
  then have "columns df = map (\<lambda>k. (k, map (\<lambda>i. g k (rs ! i)) idx)) (map fst (columns df))"
    by (simp add: comp_def)
  with i show ?thesis by (cases df) simp
qed

lemma frame_of_column:
  assumes "frame_of df rs idx g" "k \<in> set (map fst (columns df))"
  shows "map_of (columns df) k = Some (map (\<lambda>i. g k (rs ! i)) idx)"
proof -
  from get_column_exists [OF assms(2)] obtain c where c: "get_column df k = Inr c" ..
  have "c = map (\<lambda>i. g k (rs ! i)) idx" by (rule get_column_frame_of [OF assms(1) c])
  with c show ?thesis by (simp add: get_column_def split: option.splits)
qed

lemma and_then_assoc:
  "and_then (and_then m f) g = and_then m (\<lambda>x. and_then (f x) g)"
  by (cases m) simp_all

lemma gt_transform_split:
  "gt_transform rs =
     and_then (prepare rs) (\<lambda>df.
     and_then (dropna [''start_time'', ''end_time''] df) (finish ''thursday''))"
  unfolding gt_transform_def prepare_def finish_def
  by (simp only: and_then_assoc)

lemma etl_transform_split:
  "etl_transform rs =
     and_then (prepare rs) (\<lambda>df.
     and_then (and_then (isna_any_index [''start_time'', ''end_time''] df) (\<lambda>labels. drop_rows labels df))
       (finish ''thurday''))"
  unfolding etl_transform_def prepare_def finish_def
  by (simp only: and_then_assoc)

lemma has_column_iff: "has_column k rs \<longleftrightarrow> k \<in> set (first_seen (concat (map (map fst) rs)))"
  by (auto simp: has_column_def set_first_seen)

lemma set_add_name [simp]: "set (add_name k ns) = insert k (set ns)"
  by (auto simp: add_name_def)

lemma distinct_add_name: "distinct ns \<Longrightarrow> distinct (add_name k ns)"
  by (simp add: add_name_def)

lemma all_positions_iff: "(\<forall>i \<in> set [0..<length rs]. P (rs ! i)) \<longleftrightarrow> (\<forall>r \<in> set rs. P r)"
proof
  assume l: "\<forall>i \<in> set [0..<length rs]. P (rs ! i)"
  show "\<forall>r \<in> set rs. P r"
  proof
    fix r assume "r \<in> set rs"
    then obtain i where "i < length rs" "rs ! i = r" by (auto simp: in_set_conv_nth)
    with l show "P r" by auto
  qed
next
  assume "\<forall>r \<in> set rs. P r"
  then show "\<forall>i \<in> set [0..<length rs]. P (rs ! i)" by simp
qed

lemma max_two_iff:
  "Max (insert 0 (set (map (\<lambda>i. f (rs ! i)) [0..<length rs]))) = (2::nat) \<longleftrightarrow>
     (\<forall>r \<in> set rs. f r \<le> 2) \<and> (\<exists>r \<in> set rs. f r = 2)"
proof -
  have "map (\<lambda>i. f (rs ! i)) [0..<length rs] = map f rs"
    by (rule map_by_position [symmetric])
  then have s: "set (map (\<lambda>i. f (rs ! i)) [0..<length rs]) = f ` set rs" by simp
  have "Max (insert 0 (f ` set rs)) = 2 \<longleftrightarrow> 2 \<in> insert 0 (f ` set rs) \<and> (\<forall>a \<in> insert 0 (f ` set rs). a \<le> 2)"
    by (rule Max_eq_iff) simp_all
  also have "\<dots> \<longleftrightarrow> (\<forall>r \<in> set rs. f r \<le> 2) \<and> (\<exists>r \<in> set rs. f r = 2)"
    by auto
  finally show ?thesis by (simp only: s)
qed

lemma prepare_Inr:
  assumes "prepare rs = Inr df"
  shows "frame_of df rs [0..<length rs] prep_cell"
    and "map fst (columns df) = prep_names (first_seen (concat (map (map fst) rs)))"
    and "prepare_ok rs"
proof -
  let ?ns = "first_seen (concat (map (map fst) rs))"
  from assms obtain df1 df2 df3 where
    s1: "drop_columns [''attributes'', ''building_coords'', ''professors''] (DataFrame rs) = Inr df1"
    and s2: "split_column ''date_range'' [''start_date'', ''end_date''] df1 = Inr df2"
    and s3: "split_column ''time'' [''start_time'', ''end_time''] df2 = Inr df3"
    and s4: "drop_columns [''date_range'', ''time''] df3 = Inr df"
    unfolding prepare_def and_then_Inr_iff by blast
  note f1 = drop_columns_Inr(4) [OF s1 frame_of_DataFrame]
  note f2 = split_column_Inr(1) [OF s2 f1]
  note f3 = split_column_Inr(1) [OF s3 f2]
  note f4 = drop_columns_Inr(4) [OF s4 f3]
  show "frame_of df rs [0..<length rs] prep_cell"
    by (rule frame_of_cong [OF f4]) (simp_all add: prep_cell_def split_cell_def record_cell_def)
  have n1: "map fst (columns df1) = filter (\<lambda>k. k \<notin> set [''attributes'', ''building_coords'', ''professors'']) ?ns"
    unfolding drop_columns_Inr(2) [OF s1] names_DataFrame ..
  have n2: "map fst (columns df2) = add_name ''end_date'' (add_name ''start_date'' (map fst (columns df1)))"
    by (rule split_column_names [OF s2])
  have n3: "map fst (columns df3) = add_name ''end_time'' (add_name ''start_time'' (map fst (columns df2)))"
    by (rule split_column_names [OF s3])
  show "map fst (columns df) = prep_names ?ns"
    unfolding prep_names_def drop_columns_Inr(2) [OF s4] n3 n2 n1 ..
  have h1: "\<forall>k \<in> set [''attributes'', ''building_coords'', ''professors'']. has_column k rs"
    using drop_columns_Inr(3) [OF s1] unfolding names_DataFrame has_column_iff by auto
  have "''date_range'' \<in> set (map fst (columns df1))" by (rule split_column_Inr(3) [OF s2 f1])
  then have h2: "has_column ''date_range'' rs" unfolding n1 has_column_iff by simp
  have "''time'' \<in> set (map fst (columns df2))" by (rule split_column_Inr(3) [OF s3 f2])
  then have h3: "has_column ''time'' rs" unfolding n2 n1 has_column_iff by simp
  have "\<forall>i \<in> set [0..<length rs]. str_or_missing (record_cell ''date_range'' (rs ! i))"
    using split_column_Inr(4) [OF s2 f1] by (simp add: str_or_missing_def record_cell_def)
  then have a1: "\<forall>r \<in> set rs. str_or_missing (record_cell ''date_range'' r)"
    by (simp only: all_positions_iff [where P = "\<lambda>r. str_or_missing (record_cell ''date_range'' r)"])
  have "\<forall>i \<in> set [0..<length rs]. str_or_missing (record_cell ''time'' (rs ! i))"
    using split_column_Inr(4) [OF s3 f2] by (simp add: str_or_missing_def record_cell_def)
  then have a2: "\<forall>r \<in> set rs. str_or_missing (record_cell ''time'' r)"
    by (simp only: all_positions_iff [where P = "\<lambda>r. str_or_missing (record_cell ''time'' r)"])
  have "Max (insert 0 (set (map (\<lambda>i. pieces ''date_range'' (rs ! i)) [0..<length rs]))) = 2"
    using split_column_Inr(5) [OF s2 f1] by (simp add: pieces_def record_cell_def)
  then have w1: "two_wide ''date_range'' rs"
    using max_two_iff [where f = "pieces ''date_range''" and rs = rs] unfolding two_wide_def by blast
  have "Max (insert 0 (set (map (\<lambda>i. pieces ''time'' (rs ! i)) [0..<length rs]))) = 2"
    using split_column_Inr(5) [OF s3 f2] by (simp add: pieces_def record_cell_def)
  then have w2: "two_wide ''time'' rs"
    using max_two_iff [where f = "pieces ''time''" and rs = rs] unfolding two_wide_def by blast
  show "prepare_ok rs"
    unfolding prepare_ok_def using h1 h2 h3 a1 a2 w1 w2 by simp
qed

lemma prepare_ok_imp:
  assumes "prepare_ok rs"
  shows "\<exists>df. prepare rs = Inr df"
proof -
  let ?ns = "first_seen (concat (map (map fst) rs))"
  let ?g0 = "\<lambda>k r. cell_of (map_of r k)"
  from assms have h: "''attributes'' \<in> set ?ns" "''building_coords'' \<in> set ?ns"
      "''professors'' \<in> set ?ns" "''date_range'' \<in> set ?ns" "''time'' \<in> set ?ns"
    and a1: "\<forall>r \<in> set rs. str_or_missing (record_cell ''date_range'' r)"
    and a2: "\<forall>r \<in> set rs. str_or_missing (record_cell ''time'' r)"
    and w1: "two_wide ''date_range'' rs" and w2: "two_wide ''time'' rs"
    by (simp_all add: prepare_ok_def has_column_iff)
  have "set [''attributes'', ''building_coords'', ''professors''] \<subseteq> set (map fst (columns (DataFrame rs)))"
    unfolding names_DataFrame using h by simp
  from drop_columns_ok [OF this] obtain df1 where
    s1: "drop_columns [''attributes'', ''building_coords'', ''professors''] (DataFrame rs) = Inr df1" ..
  note f1 = drop_columns_Inr(4) [OF s1 frame_of_DataFrame]
  have n1: "map fst (columns df1) = filter (\<lambda>k. k \<notin> set [''attributes'', ''building_coords'', ''professors'']) ?ns"
    unfolding drop_columns_Inr(2) [OF s1] names_DataFrame ..
  have m1: "''date_range'' \<in> set (map fst (columns df1))" unfolding n1 using h by simp
  have acc1: "\<forall>i \<in> set [0..<length rs]. isna (?g0 ''date_range'' (rs ! i)) \<or> is_str (?g0 ''date_range'' (rs ! i))"
    using a1 by (simp add: str_or_missing_def record_cell_def)
  have wide1: "Max (insert 0 (set (map (\<lambda>i. part_width (str_split '' - '' (?g0 ''date_range'' (rs ! i)))) [0..<length rs]))) = 2"
    using w1 max_two_iff [where f = "pieces ''date_range''" and rs = rs]
    unfolding two_wide_def pieces_def record_cell_def by blast
  from split_column_ok [OF f1 m1 acc1 wide1] obtain df2 where
    s2: "split_column ''date_range'' [''start_date'', ''end_date''] df1 = Inr df2" ..
  note f2 = split_column_Inr(1) [OF s2 f1]
  have n2: "map fst (columns df2) = add_name ''end_date'' (add_name ''start_date'' (map fst (columns df1)))"
    by (rule split_column_names [OF s2])
  have m2: "''time'' \<in> set (map fst (columns df2))" unfolding n2 n1 using h by simp
  have acc2: "\<forall>i \<in> set [0..<length rs]. str_or_missing (record_cell ''time'' (rs ! i))"
    using a2 by simp
  have wide2: "Max (insert 0 (set (map (\<lambda>i. pieces ''time'' (rs ! i)) [0..<length rs]))) = 2"
    using w2 max_two_iff [where f = "pieces ''time''" and rs = rs]
    unfolding two_wide_def by blast
  have "\<exists>df3. split_column ''time'' [''start_time'', ''end_time''] df2 = Inr df3"
  proof (rule split_column_ok [OF f2 m2])
    show "\<forall>i\<in>set [0..<length rs].
       isna ((?g0(''start_date'' := \<lambda>r. part_cell 0 (str_split '' - '' (cell_of (map_of r ''date_range''))),
                  ''end_date'' := \<lambda>r. part_cell 1 (str_split '' - '' (cell_of (map_of r ''date_range'')))))
              ''time'' (rs ! i)) \<or>
       is_str ((?g0(''start_date'' := \<lambda>r. part_cell 0 (str_split '' - '' (cell_of (map_of r ''date_range''))),
                  ''end_date'' := \<lambda>r. part_cell 1 (str_split '' - '' (cell_of (map_of r ''date_range'')))))
              ''time'' (rs ! i))"
      using acc2 by (simp add: str_or_missing_def record_cell_def)
    show "Max (insert 0 (set (map (\<lambda>i. part_width (str_split '' - ''
              ((?g0(''start_date'' := \<lambda>r. part_cell 0 (str_split '' - '' (cell_of (map_of r ''date_range''))),
                  ''end_date'' := \<lambda>r. part_cell 1 (str_split '' - '' (cell_of (map_of r ''date_range'')))))
              ''time'' (rs ! i)))) [0..<length rs]))) = 2"
      using wide2 by (simp add: pieces_def record_cell_def)
  qed
  then obtain df3 where s3: "split_column ''time'' [''start_time'', ''end_time''] df2 = Inr df3" ..
  have n3: "map fst (columns df3) = add_name ''end_time'' (add_name ''start_time'' (map fst (columns df2)))"
    by (rule split_column_names [OF s3])
  have "set [''date_range'', ''time''] \<subseteq> set (map fst (columns df3))"
    unfolding n3 n2 n1 using h by simp
  from drop_columns_ok [OF this] obtain df where s4: "drop_columns [''date_range'', ''time''] df3 = Inr df" ..
  show ?thesis by (simp add: prepare_def s1 s2 s3 s4)
qed

lemma parses_iff: "parses x \<longleftrightarrow> (\<exists>y. transform_military_time x = Inr y)"
  by (cases "transform_military_time x") (simp_all add: parses_def)

lemma finish_Inr:
  assumes "finish t df = Inr df'" and fo: "frame_of df rs idx prep_cell"
    and t: "t \<noteq> ''day_of_week''" "t \<noteq> ''building''"
  shows "frame_of df' rs idx (out_cell t)"
    and "map fst (columns df') = fin_names t (map fst (columns df))"
    and "''day_of_week'' \<in> set (map fst (columns df))"
    and "''building'' \<in> set (map fst (columns df))"
    and "\<forall>i \<in> set idx. parses (split_cell 0 ''time'' (rs ! i)) \<and> parses (split_cell 1 ''time'' (rs ! i))
            \<and> str_or_missing (record_cell ''day_of_week'' (rs ! i))
            \<and> str_or_missing (record_cell ''building'' (rs ! i))"
proof -
  from assms(1) obtain df6 df7 df8 df9 df10 df11 df12 df13 where
    s6: "apply_column ''start_time'' transform_military_time df = Inr df6"
    and s7: "apply_column ''end_time'' transform_military_time df6 = Inr df7"
    and s8: "contains_column ''monday'' ''day_of_week'' CHR ''M'' df7 = Inr df8"
    and s9: "contains_column ''tuesday'' ''day_of_week'' CHR ''T'' df8 = Inr df9"
    and s10: "contains_column ''wednesday'' ''day_of_week'' CHR ''W'' df9 = Inr df10"
    and s11: "contains_column t ''day_of_week'' CHR ''R'' df10 = Inr df11"
    and s12: "contains_column ''friday'' ''day_of_week'' CHR ''F'' df11 = Inr df12"
    and s13: "drop_columns [''day_of_week''] df12 = Inr df13"
    and s14: "extract_column ''building'' df13 = Inr df'"
    unfolding finish_def and_then_Inr_iff by blast
  note f6 = apply_column_Inr(1) [OF s6 fo]
  note f7 = apply_column_Inr(1) [OF s7 f6]
  note f8 = contains_column_Inr(1) [OF s8 f7]
  note f9 = contains_column_Inr(1) [OF s9 f8]
  note f10 = contains_column_Inr(1) [OF s10 f9]
  note f11 = contains_column_Inr(1) [OF s11 f10]
  note f12 = contains_column_Inr(1) [OF s12 f11]
  note f13 = drop_columns_Inr(4) [OF s13 f12]
  note f14 = extract_column_Inr(1) [OF s14 f13]
  show "frame_of df' rs idx (out_cell t)"
    by (rule frame_of_cong [OF f14])
       (use t in \<open>simp_all add: out_cell_def prep_cell_def military_def\<close>)
  have n7: "map fst (columns df7) = map fst (columns df)"
    unfolding apply_column_Inr(2) [OF s7 f6] apply_column_Inr(2) [OF s6 fo] ..
  have n12: "map fst (columns df12) =
      add_name ''friday'' (add_name t (add_name ''wednesday''
       (add_name ''tuesday'' (add_name ''monday'' (map fst (columns df))))))"
    unfolding contains_column_names [OF s12] contains_column_names [OF s11]
      contains_column_names [OF s10] contains_column_names [OF s9] contains_column_names [OF s8] n7 ..
  have n13: "map fst (columns df13) = fin_names t (map fst (columns df))"
    unfolding fin_names_def drop_columns_Inr(2) [OF s13] n12 ..
  show "map fst (columns df') = fin_names t (map fst (columns df))"
    unfolding extract_column_Inr(2) [OF s14 f13] n13 ..
  show "''day_of_week'' \<in> set (map fst (columns df))"
    using contains_column_Inr(3) [OF s8 f7] unfolding n7 .
  have "''building'' \<in> set (map fst (columns df13))"
    using s14 by (auto simp: extract_column_def and_then_Inr_iff dest: get_column_Inr_mem)
  then show "''building'' \<in> set (map fst (columns df))"
    unfolding n13 fin_names_def using t by simp
  show "\<forall>i \<in> set idx. parses (split_cell 0 ''time'' (rs ! i)) \<and> parses (split_cell 1 ''time'' (rs ! i))
            \<and> str_or_missing (record_cell ''day_of_week'' (rs ! i))
            \<and> str_or_missing (record_cell ''building'' (rs ! i))"
  proof
    fix i assume i: "i \<in> set idx"
    from apply_column_Inr(3) [OF s6 fo] i have p0: "parses (split_cell 0 ''time'' (rs ! i))"
      by (simp add: parses_iff prep_cell_def)
    from apply_column_Inr(3) [OF s7 f6] i have p1: "parses (split_cell 1 ''time'' (rs ! i))"
      by (simp add: parses_iff prep_cell_def)
    from contains_column_Inr(4) [OF s8 f7] i have d: "str_or_missing (record_cell ''day_of_week'' (rs ! i))"
      by (simp add: str_or_missing_def prep_cell_def)
    from extract_column_Inr(3) [OF s14 f13] i t have b: "str_or_missing (record_cell ''building'' (rs ! i))"
      by (simp add: str_or_missing_def prep_cell_def)
    from p0 p1 d b show "parses (split_cell 0 ''time'' (rs ! i)) \<and> parses (split_cell 1 ''time'' (rs ! i))
            \<and> str_or_missing (record_cell ''day_of_week'' (rs ! i))
            \<and> str_or_missing (record_cell ''building'' (rs ! i))" by simp
  qed
qed

lemma finish_ok_imp:
  assumes fo: "frame_of df rs idx prep_cell"
    and t: "t \<noteq> ''day_of_week''" "t \<noteq> ''building''"
    and names: "''start_time'' \<in> set (map fst (columns df))" "''end_time'' \<in> set (map fst (columns df))"
      "''day_of_week'' \<in> set (map fst (columns df))" "''building'' \<in> set (map fst (columns df))"
    and rows: "\<forall>i \<in> set idx. parses (split_cell 0 ''time'' (rs ! i)) \<and> parses (split_cell 1 ''time'' (rs ! i))
            \<and> str_or_missing (record_cell ''day_of_week'' (rs ! i))
            \<and> str_or_missing (record_cell ''building'' (rs ! i))"
  shows "\<exists>df'. finish t df = Inr df'"
proof -
  have "\<forall>i \<in> set idx. \<exists>y. transform_military_time (prep_cell ''start_time'' (rs ! i)) = Inr y"
    using rows by (simp add: parses_iff prep_cell_def)
  from apply_column_ok [OF fo names(1) this] obtain df6 where
    s6: "apply_column ''start_time'' transform_military_time df = Inr df6" ..
  note f6 = apply_column_Inr(1) [OF s6 fo]
  note n6 = apply_column_Inr(2) [OF s6 fo]
  have "\<exists>df7. apply_column ''end_time'' transform_military_time df6 = Inr df7"
    by (rule apply_column_ok [OF f6]) (use rows names in \<open>simp_all add: n6 parses_iff prep_cell_def\<close>)
  then obtain df7 where s7: "apply_column ''end_time'' transform_military_time df6 = Inr df7" ..
  note f7 = apply_column_Inr(1) [OF s7 f6]
  have n7: "map fst (columns df7) = map fst (columns df)"
    unfolding apply_column_Inr(2) [OF s7 f6] n6 ..
  have "\<exists>df8. contains_column ''monday'' ''day_of_week'' CHR ''M'' df7 = Inr df8"
    by (rule contains_column_ok [OF f7])
       (use rows names in \<open>simp_all add: n7 str_or_missing_def prep_cell_def\<close>)
  then obtain df8 where s8: "contains_column ''monday'' ''day_of_week'' CHR ''M'' df7 = Inr df8" ..
  note f8 = contains_column_Inr(1) [OF s8 f7]
  note n8 = contains_column_names [OF s8]
  have "\<exists>df9. contains_column ''tuesday'' ''day_of_week'' CHR ''T'' df8 = Inr df9"
    by (rule contains_column_ok [OF f8])
       (use rows names in \<open>simp_all add: n8 n7 str_or_missing_def prep_cell_def\<close>)
  then obtain df9 where s9: "contains_column ''tuesday'' ''day_of_week'' CHR ''T'' df8 = Inr df9" ..
  note f9 = contains_column_Inr(1) [OF s9 f8]
  note n9 = contains_column_names [OF s9]
  have "\<exists>df10. contains_column ''wednesday'' ''day_of_week'' CHR ''W'' df9 = Inr df10"
    by (rule contains_column_ok [OF f9])
       (use rows names in \<open>simp_all add: n9 n8 n7 str_or_missing_def prep_cell_def\<close>)
  then obtain df10 where s10: "contains_column ''wednesday'' ''day_of_week'' CHR ''W'' df9 = Inr df10" ..
  note f10 = contains_column_Inr(1) [OF s10 f9]
  note n10 = contains_column_names [OF s10]
  have "\<exists>df11. contains_column t ''day_of_week'' CHR ''R'' df10 = Inr df11"
    by (rule contains_column_ok [OF f10])
       (use rows names in \<open>simp_all add: n10 n9 n8 n7 str_or_missing_def prep_cell_def\<close>)
  then obtain df11 where s11: "contains_column t ''day_of_week'' CHR ''R'' df10 = Inr df11" ..
  note f11 = contains_column_Inr(1) [OF s11 f10]
  note n11 = contains_column_names [OF s11]
  have "\<exists>df12. contains_column ''friday'' ''day_of_week'' CHR ''F'' df11 = Inr df12"
    by (rule contains_column_ok [OF f11])
       (use rows names t in \<open>simp_all add: n11 n10 n9 n8 n7 str_or_missing_def prep_cell_def\<close>)
  then obtain df12 where s12: "contains_column ''friday'' ''day_of_week'' CHR ''F'' df11 = Inr df12" ..
  note f12 = contains_column_Inr(1) [OF s12 f11]
  note n12 = contains_column_names [OF s12]
  have "set [''day_of_week''] \<subseteq> set (map fst (columns df12))"
    using names by (simp add: n12 n11 n10 n9 n8 n7)
  from drop_columns_ok [OF this] obtain df13 where s13: "drop_columns [''day_of_week''] df12 = Inr df13" ..
  note f13 = drop_columns_Inr(4) [OF s13 f12]
  note n13 = drop_columns_Inr(2) [OF s13]
  have "\<exists>df'. extract_column ''building'' df13 = Inr df'"
    by (rule extract_column_ok [OF f13])
       (use rows names t in \<open>simp_all add: n13 n12 n11 n10 n9 n8 n7 str_or_missing_def prep_cell_def\<close>)
  then obtain df' where s14: "extract_column ''building'' df13 = Inr df'" ..
  show ?thesis
    by (simp add: finish_def s6 s7 s8 s9 s10 s11 s12 s13 s14)
qed

lemma kept_subset: "i \<in> set (kept rs) \<longleftrightarrow> i < length rs \<and> survives (rs ! i)"
  by (auto simp: kept_def)

lemma prep_names_mem:
  "''start_time'' \<in> set (prep_names ns)" "''end_time'' \<in> set (prep_names ns)"
  "''day_of_week'' \<in> set (prep_names ns) \<longleftrightarrow> ''day_of_week'' \<in> set ns"
  "''building'' \<in> set (prep_names ns) \<longleftrightarrow> ''building'' \<in> set ns"
  by (simp_all add: prep_names_def)

lemma pipeline_Inr:
  assumes run: "and_then (prepare rs) (\<lambda>df. and_then (dropna [''start_time'', ''end_time''] df) (finish t)) = Inr df'"
    and t: "t \<noteq> ''day_of_week''" "t \<noteq> ''building''"
  shows "transform_ok rs" and "df' = out_frame t rs"
proof -
  let ?ns = "first_seen (concat (map (map fst) rs))"
  from run obtain df4 df5 where s4: "prepare rs = Inr df4"
    and s5: "dropna [''start_time'', ''end_time''] df4 = Inr df5" and s6: "finish t df5 = Inr df'"
    unfolding and_then_Inr_iff by blast
  note f4 = prepare_Inr(1) [OF s4]
  note n4 = prepare_Inr(2) [OF s4]
  have f5: "frame_of df5 rs (kept rs) prep_cell"
    by (rule frame_of_cong [OF dropna_Inr(1) [OF s5 f4]])
       (simp_all add: kept_def survives_def prep_cell_def)
  have n5: "map fst (columns df5) = prep_names ?ns"
    unfolding dropna_Inr(2) [OF s5 f4] n4 ..
  note f6 = finish_Inr(1) [OF s6 f5 t]
  note n6 = finish_Inr(2) [OF s6 f5 t]
  have "has_column ''day_of_week'' rs" "has_column ''building'' rs"
    using finish_Inr(3,4) [OF s6 f5 t] unfolding n5 prep_names_mem has_column_iff by simp_all
  moreover have "\<forall>r \<in> set rs. survives r \<longrightarrow>
            parses (split_cell 0 ''time'' r) \<and> parses (split_cell 1 ''time'' r)
            \<and> str_or_missing (record_cell ''day_of_week'' r)
            \<and> str_or_missing (record_cell ''building'' r)"
  proof (intro ballI impI)
    fix r assume "r \<in> set rs" "survives r"
    then obtain i where "i < length rs" "rs ! i = r" by (auto simp: in_set_conv_nth)
    with \<open>survives r\<close> have "i \<in> set (kept rs)" by (simp add: kept_subset)
    with finish_Inr(5) [OF s6 f5 t] \<open>rs ! i = r\<close>
    show "parses (split_cell 0 ''time'' r) \<and> parses (split_cell 1 ''time'' r)
            \<and> str_or_missing (record_cell ''day_of_week'' r)
            \<and> str_or_missing (record_cell ''building'' r)" by auto
  qed
  ultimately have "finish_ok rs" by (simp add: finish_ok_def)
  with prepare_Inr(3) [OF s4] show "transform_ok rs" by (simp add: transform_ok_def)
  show "df' = out_frame t rs"
    using frame_of_eq [OF f6] unfolding out_frame_def n6 n5 .
qed

lemma pipeline_ok:
  assumes ok: "transform_ok rs" and t: "t \<noteq> ''day_of_week''" "t \<noteq> ''building''"
  shows "\<exists>df'. and_then (prepare rs) (\<lambda>df. and_then (dropna [''start_time'', ''end_time''] df) (finish t)) = Inr df'"
proof -
  let ?ns = "first_seen (concat (map (map fst) rs))"
  from ok have pok: "prepare_ok rs" and fok: "finish_ok rs" by (simp_all add: transform_ok_def)
  from prepare_ok_imp [OF pok] obtain df4 where s4: "prepare rs = Inr df4" ..
  note f4 = prepare_Inr(1) [OF s4]
  note n4 = prepare_Inr(2) [OF s4]
  have "\<exists>df5. dropna [''start_time'', ''end_time''] df4 = Inr df5"
    by (rule dropna_ok) (simp_all only: n4 prep_names_mem)
  then obtain df5 where s5: "dropna [''start_time'', ''end_time''] df4 = Inr df5" ..
  have f5: "frame_of df5 rs (kept rs) prep_cell"
    by (rule frame_of_cong [OF dropna_Inr(1) [OF s5 f4]])
       (simp_all add: kept_def survives_def prep_cell_def)
  have n5: "map fst (columns df5) = prep_names ?ns"
    unfolding dropna_Inr(2) [OF s5 f4] n4 ..
  have "\<exists>df'. finish t df5 = Inr df'"
  proof (rule finish_ok_imp [OF f5 t])
    show "''start_time'' \<in> set (map fst (columns df5))" "''end_time'' \<in> set (map fst (columns df5))"
      by (simp_all only: n5 prep_names_mem)
    show "''day_of_week'' \<in> set (map fst (columns df5))" "''building'' \<in> set (map fst (columns df5))"
      using fok by (simp_all only: n5 prep_names_mem finish_ok_def has_column_iff)
    show "\<forall>i \<in> set (kept rs). parses (split_cell 0 ''time'' (rs ! i)) \<and> parses (split_cell 1 ''time'' (rs ! i))
            \<and> str_or_missing (record_cell ''day_of_week'' (rs ! i))
            \<and> str_or_missing (record_cell ''building'' (rs ! i))"
      using fok by (simp add: finish_ok_def kept_subset)
  qed
  then obtain df' where s6: "finish t df5 = Inr df'" ..
  show ?thesis by (simp add: s4 s5 s6)
qed

lemma gt_transform_iff:
  "gt_transform rs = Inr df \<longleftrightarrow> transform_ok rs \<and> df = out_frame ''thursday'' rs"
proof
  assume "gt_transform rs = Inr df"
  then show "transform_ok rs \<and> df = out_frame ''thursday'' rs"
    unfolding gt_transform_split using pipeline_Inr [of rs "''thursday''" df] by simp
next
  assume r: "transform_ok rs \<and> df = out_frame ''thursday'' rs"
  then obtain df' where d: "gt_transform rs = Inr df'"
    unfolding gt_transform_split using pipeline_ok [of rs "''thursday''"] by auto
  then have "df' = out_frame ''thursday'' rs"
    unfolding gt_transform_split using pipeline_Inr(2) [of rs "''thursday''" df'] by simp
  with d r show "gt_transform rs = Inr df" by simp
qed

lemma etl_transform_pipeline:
  "etl_transform rs =
     and_then (prepare rs) (\<lambda>df. and_then (dropna [''start_time'', ''end_time''] df) (finish ''thurday''))"
proof (cases "prepare rs")
  case (Inl e)
  then show ?thesis by (simp add: etl_transform_split)
next
  case (Inr df4)
  from drop_rows_isna_eq_dropna [OF prepare_Inr(1) [OF Inr]]
  show ?thesis by (simp add: etl_transform_split Inr)
qed

lemma etl_transform_iff:
  "etl_transform rs = Inr df \<longleftrightarrow> transform_ok rs \<and> df = out_frame ''thurday'' rs"
proof
  assume "etl_transform rs = Inr df"
  then show "transform_ok rs \<and> df = out_frame ''thurday'' rs"
    unfolding etl_transform_pipeline using pipeline_Inr [of rs "''thurday''" df] by simp
next
  assume r: "transform_ok rs \<and> df = out_frame ''thurday'' rs"
  then obtain df' where d: "etl_transform rs = Inr df'"
    unfolding etl_transform_pipeline using pipeline_ok [of rs "''thurday''"] by auto
  then have "df' = out_frame ''thurday'' rs"
    unfolding etl_transform_pipeline using pipeline_Inr(2) [of rs "''thurday''" df'] by simp
  with d r show "etl_transform rs = Inr df" by simp
qed

subsection \<open>Weekday columns\<close>

text \<open>
  C7. The claim: every surviving row gets exactly five weekday columns named monday,
  tuesday, wednesday, thursday and friday, each true exactly when its letter (M, T, W, R,
  F) occurs in the day codes. \<^verbatim>\<open>src/etl/gt_class_etl.py\<close> does so, but \<^verbatim>\<open>src/etl.py\<close>
  (line 87) writes the Thursday flags to a column named \<^verbatim>\<open>thurday\<close>: on the record of
  the end-to-end scenario its frame has the columns below, and none is named thursday.
\<close>

theorem etl_transform_thurday:
  "map_sum id (\<lambda>df. map fst (columns df)) (etl_transform [record_mwf]) =
     Inr [''crn'', ''name'', ''actual_name'', ''section'', ''building'', ''credits'',
          ''schedule_type'', ''campus'', ''start_date'', ''end_date'', ''start_time'',
          ''end_time'', ''monday'', ''tuesday'', ''wednesday'', ''thurday'', ''friday'']
   \<and> map_sum id (\<lambda>df. map_of (columns df) ''thursday'') (etl_transform [record_mwf]) = Inr None
   \<and> map_sum id (\<lambda>df. map_of (columns df) ''thursday'') (gt_transform [record_mwf]) =
       Inr (Some [Obj (PBool False)])"
  by code_simp

lemma index_out_frame [simp]: "index (out_frame t rs) = kept rs"
  by (simp add: out_frame_def)

lemma map_of_keyed: "map_of (map (\<lambda>k. (k, f k)) ks) k = (if k \<in> set ks then Some (f k) else None)"
  by (induction ks) auto

lemma out_frame_column:
  "map_of (columns (out_frame t rs)) k =
     (if k \<in> set (fin_names t (prep_names (first_seen (concat (map (map fst) rs)))))
      then Some (map (\<lambda>i. out_cell t k (rs ! i)) (kept rs)) else None)"
  unfolding out_frame_def by (simp add: map_of_keyed)

lemma fin_names_mem:
  "''start_date'' \<in> set (fin_names t (prep_names ns))"
  "''end_date'' \<in> set (fin_names t (prep_names ns))"
  "''start_time'' \<in> set (fin_names t (prep_names ns))"
  "''end_time'' \<in> set (fin_names t (prep_names ns))"
  "''monday'' \<in> set (fin_names t (prep_names ns))"
  "''tuesday'' \<in> set (fin_names t (prep_names ns))"
  "''wednesday'' \<in> set (fin_names t (prep_names ns))"
  "''friday'' \<in> set (fin_names t (prep_names ns))"
  by (simp_all add: fin_names_def prep_names_def)

lemma fin_names_thursday: "t \<noteq> ''day_of_week'' \<Longrightarrow> t \<in> set (fin_names t (prep_names ns))"
  by (simp add: fin_names_def)

lemma fin_names_building:
  "''building'' \<in> set (fin_names t (prep_names ns)) \<longleftrightarrow> t = ''building'' \<or> ''building'' \<in> set ns"
  by (auto simp add: fin_names_def prep_names_def)

lemma fin_names_other:
  "k \<noteq> ''thursday'' \<Longrightarrow> k \<noteq> ''thurday'' \<Longrightarrow>
     k \<in> set (fin_names ''thursday'' ns) \<longleftrightarrow> k \<in> set (fin_names ''thurday'' ns)"
  by (auto simp add: fin_names_def)

lemma out_cell_other:
  "k \<noteq> ''thursday'' \<Longrightarrow> k \<noteq> ''thurday'' \<Longrightarrow> out_cell ''thursday'' k r = out_cell ''thurday'' k r"
  by (simp add: out_cell_def)

text \<open>What either file's \<^verbatim>\<open>transform\<close> returned, when it returned.\<close>

lemma transform_returned:
  assumes "gt_transform rs = Inr df \<or> etl_transform rs = Inr df"
  shows "transform_ok rs" and "index df = kept rs"
    and "map_of (columns df) ''start_date'' = Some (map (\<lambda>i. split_cell 0 ''date_range'' (rs ! i)) (kept rs))"
    and "map_of (columns df) ''end_date'' = Some (map (\<lambda>i. split_cell 1 ''date_range'' (rs ! i)) (kept rs))"
    and "map_of (columns df) ''start_time'' = Some (map (\<lambda>i. military (split_cell 0 ''time'' (rs ! i))) (kept rs))"
    and "map_of (columns df) ''end_time'' = Some (map (\<lambda>i. military (split_cell 1 ''time'' (rs ! i))) (kept rs))"
    and "map_of (columns df) ''building'' = Some (map (\<lambda>i. str_extract (record_cell ''building'' (rs ! i))) (kept rs))"
proof -
  from assms obtain t where ok: "transform_ok rs" and df: "df = out_frame t rs"
    and t: "t = ''thursday'' \<or> t = ''thurday''"
    by (auto simp: gt_transform_iff etl_transform_iff)
  show "transform_ok rs" by (rule ok)
  show "index df = kept rs" by (simp add: df)
  show "map_of (columns df) ''start_date'' = Some (map (\<lambda>i. split_cell 0 ''date_range'' (rs ! i)) (kept rs))"
    using t unfolding df out_frame_column by (auto simp: fin_names_mem out_cell_def prep_cell_def)
  show "map_of (columns df) ''end_date'' = Some (map (\<lambda>i. split_cell 1 ''date_range'' (rs ! i)) (kept rs))"
    using t unfolding df out_frame_column by (auto simp: fin_names_mem out_cell_def prep_cell_def)
  show "map_of (columns df) ''start_time'' = Some (map (\<lambda>i. military (split_cell 0 ''time'' (rs ! i))) (kept rs))"
    using t unfolding df out_frame_column by (auto simp: fin_names_mem out_cell_def prep_cell_def)
  show "map_of (columns df) ''end_time'' = Some (map (\<lambda>i. military (split_cell 1 ''time'' (rs ! i))) (kept rs))"
    using t unfolding df out_frame_column by (auto simp: fin_names_mem out_cell_def prep_cell_def)
  from ok have "''building'' \<in> set (first_seen (concat (map (map fst) rs)))"
    by (simp add: transform_ok_def finish_ok_def has_column_iff)
  then show "map_of (columns df) ''building'' = Some (map (\<lambda>i. str_extract (record_cell ''building'' (rs ! i))) (kept rs))"
    using t unfolding df out_frame_column by (auto simp: fin_names_building out_cell_def)
qed

lemma survives_two:
  assumes "survives r" "pieces ''time'' r \<le> 2"
  shows "\<exists>t a b. map_of r ''time'' = Some (PStr t) \<and> split_on '' - '' [] t = [a, b]
           \<and> split_cell 0 ''time'' r = Obj (PStr a) \<and> split_cell 1 ''time'' r = Obj (PStr b)"
proof -
  from assms(1) obtain ps where ps: "str_split '' - '' (record_cell ''time'' r) = Some ps"
    by (cases "str_split '' - '' (record_cell ''time'' r)")
       (simp_all add: survives_def split_cell_def part_cell_def)
  then obtain t where t: "map_of r ''time'' = Some (PStr t)" and pst: "ps = split_on '' - '' [] t"
    by (auto simp: str_split_def record_cell_def cell_of_def split: option.splits cell.splits pyval.splits)
  from assms(1) ps have "1 < length ps"
    by (simp add: survives_def split_cell_def part_cell_def split: if_splits)
  moreover from assms(2) ps have "length ps \<le> 2"
    by (simp add: pieces_def part_width_def)
  ultimately have "length ps = 2" by simp
  then obtain a b where ab: "ps = [a, b]"
    by (cases ps; cases "tl ps"; cases "tl (tl ps)") auto
  have sp: "split_on '' - '' [] t = [a, b]" using pst ab by simp
  have str: "str_split '' - '' (record_cell ''time'' r) = Some [a, b]" using ps ab by simp
  have c0: "split_cell 0 ''time'' r = Obj (PStr a)" by (simp add: split_cell_def part_cell_def str)
  have c1: "split_cell 1 ''time'' r = Obj (PStr b)" by (simp add: split_cell_def part_cell_def str)
  show ?thesis using t sp c0 c1 by blast
qed

lemma military_str:
  assumes "parses (Obj (PStr a))"
  shows "if isdigit a then \<exists>h m. strptime_HM a = Inr (h, m) \<and> military (Obj (PStr a)) = Time h m
         else military (Obj (PStr a)) = Obj PNone"
  using assms
  by (cases "strptime_HM a") (auto simp: parses_def military_def transform_military_time_def)

lemma split_on_no_sep: "\<not> sublist sep s \<Longrightarrow> split_on sep cur s = [cur @ s]"
proof (induction s arbitrary: cur)
  case Nil
  show ?case by simp
next
  case (Cons c cs)
  have "\<not> (sep \<noteq> [] \<and> take (length sep) (c # cs) = sep)"
  proof
    assume "sep \<noteq> [] \<and> take (length sep) (c # cs) = sep"
    then have "c # cs = [] @ sep @ drop (length sep) (c # cs)"
      by (metis append_Nil append_take_drop_id)
    then have "sublist sep (c # cs)" unfolding sublist_def by blast
    with Cons.prems show False by simp
  qed
  moreover from Cons.prems have "\<not> sublist sep cs" by (simp add: sublist_Cons_right)
  ultimately show ?case using Cons.IH [of "cur @ [c]"] by simp
qed

lemma no_sep_cells:
  assumes "map_of r k = Some (PStr s)" "\<not> sublist '' - '' s"
  shows "split_cell 0 k r = Obj (PStr s)" and "split_cell 1 k r = Obj PNone"
  using assms split_on_no_sep [of "'' - ''" s "[]"]
  by (simp_all add: split_cell_def record_cell_def cell_of_def str_split_def part_cell_def)




lemma transforms_agree:
  assumes "gt_transform rs = Inr df" "etl_transform rs = Inr df'"
  shows "index df' = index df"
    and "k \<noteq> ''thursday'' \<Longrightarrow> k \<noteq> ''thurday'' \<Longrightarrow> map_of (columns df') k = map_of (columns df) k"
    and "map_of (columns df') ''thurday'' = map_of (columns df) ''thursday''"
proof -
  from assms have df: "df = out_frame ''thursday'' rs" and df': "df' = out_frame ''thurday'' rs"
    by (simp_all add: gt_transform_iff etl_transform_iff)
  show "index df' = index df" by (simp add: df df')
  show "map_of (columns df') k = map_of (columns df) k" if "k \<noteq> ''thursday''" "k \<noteq> ''thurday''"
    unfolding df df' out_frame_column
    using fin_names_other [OF that] out_cell_other [OF that] by simp
  show "map_of (columns df') ''thurday'' = map_of (columns df) ''thursday''"
    unfolding df df' out_frame_column
    by (simp add: fin_names_thursday out_cell_def)
qed

lemma token_at_iff:
  "token_at t \<longleftrightarrow>
     (\<exists>tok d rest. t = tok @ d # rest \<and> tok \<noteq> [] \<and> (\<forall>c \<in> set tok. word_char c) \<and> is_digit d)"
proof
  show "token_at t \<Longrightarrow> \<exists>tok d rest. t = tok @ d # rest \<and> tok \<noteq> [] \<and> (\<forall>c \<in> set tok. word_char c) \<and> is_digit d"
  proof (induction t rule: token_at.induct)
    case (1 c d r)
    then have c: "word_char c" and disj: "is_digit d \<or> token_at (d # r)" by simp_all
    show ?case
    proof (cases "is_digit d")
      case True
      with c have "c # d # r = [c] @ d # r \<and> [c] \<noteq> [] \<and> (\<forall>x \<in> set [c]. word_char x) \<and> is_digit d"
        by simp
      then show ?thesis by blast
    next
      case False
      with disj have tk: "token_at (d # r)" by simp
      from "1.IH" c False tk obtain tok d' rest where
        "d # r = tok @ d' # rest" "tok \<noteq> []" "\<forall>x \<in> set tok. word_char x" "is_digit d'" by blast
      with c have "c # d # r = (c # tok) @ d' # rest \<and> c # tok \<noteq> [] \<and> (\<forall>x \<in> set (c # tok). word_char x) \<and> is_digit d'"
        by simp
      then show ?thesis by blast
    qed
  qed simp_all
next
  assume "\<exists>tok d rest. t = tok @ d # rest \<and> tok \<noteq> [] \<and> (\<forall>c \<in> set tok. word_char c) \<and> is_digit d"
  then obtain tok d rest where t: "t = tok @ d # rest" and ne: "tok \<noteq> []"
    and w: "\<forall>c \<in> set tok. word_char c" and d: "is_digit d" by blast
  from ne w have "token_at (tok @ d # rest)"
  proof (induction tok)
    case Nil
    then show ?case by simp
  next
    case (Cons c tok)
    show ?case
    proof (cases tok)
      case Nil
      with Cons.prems d show ?thesis by simp
    next
      case (Cons c' tok')
      with Cons.IH Cons.prems have "token_at (tok @ d # rest)" by simp
      with Cons Cons.prems show ?thesis by simp
    qed
  qed
  with t show "token_at t" by simp
qed

lemma match_here_sound:
  "match_here s = Some g \<Longrightarrow> \<exists>t. s = g @ CHR '' '' # t \<and> token_at t"
proof (induction s arbitrary: g)
  case Nil
  then show ?case by simp
next
  case (Cons c cs)
  show ?case
  proof (cases "if c = CHR 0x0A then None else match_here cs")
    case None
    with Cons.prems show ?thesis by (auto split: if_splits)
  next
    case (Some g')
    then have m: "match_here cs = Some g'" by (simp split: if_splits)
    from Cons.prems Some have g: "g = c # g'" by simp
    from Cons.IH [OF m] show ?thesis by (auto simp: g)
  qed
qed

lemma match_here_longest:
  "s = g @ CHR '' '' # t \<Longrightarrow> token_at t \<Longrightarrow> CHR 0x0A \<notin> set g \<Longrightarrow>
     \<exists>g'. match_here s = Some g' \<and> length g \<le> length g'"
proof (induction g arbitrary: s)
  case Nil
  then show ?case by (cases "match_here t") simp_all
next
  case (Cons c g)
  from Cons.prems have nl: "c \<noteq> CHR 0x0A" and rest: "CHR 0x0A \<notin> set g" by auto
  from Cons.IH [OF refl Cons.prems(2) rest] obtain g'
    where "match_here (g @ CHR '' '' # t) = Some g'" "length g \<le> length g'" by blast
  with Cons.prems(1) nl show ?case by simp
qed

lemma re_search_first: "match_here s = Some g \<Longrightarrow> re_search s = Some g"
  by (cases s) (simp_all del: match_here.simps)

lemma re_search_None: "re_search (pre @ s) = None \<Longrightarrow> match_here s = None"
proof (induction pre)
  case Nil
  then show ?case by (cases s) (simp_all del: match_here.simps split: option.splits)
next
  case (Cons c pre)
  then show ?case by (simp del: match_here.simps split: option.splits)
qed

lemma re_search_sound:
  "re_search s = Some g \<Longrightarrow> \<exists>pre t. s = pre @ g @ CHR '' '' # t \<and> token_at t"
proof (induction s)
  case Nil
  then show ?case by simp
next
  case (Cons c cs)
  show ?case
  proof (cases "match_here (c # cs)")
    case None
    with Cons.prems have "re_search cs = Some g" by (simp del: match_here.simps)
    from Cons.IH [OF this] obtain pre t where "cs = pre @ g @ CHR '' '' # t" "token_at t" by blast
    then have "c # cs = (c # pre) @ g @ CHR '' '' # t \<and> token_at t" by simp
    then show ?thesis by blast
  next
    case (Some g')
    with Cons.prems have "g' = g" by (simp del: match_here.simps)
    with match_here_sound [OF Some] have "\<exists>t. c # cs = [] @ g @ CHR '' '' # t \<and> token_at t" by simp
    then show ?thesis by blast
  qed
qed

lemma room_code_after_iff: "room_code_after g s \<longleftrightarrow> (\<exists>t. s = g @ CHR '' '' # t \<and> token_at t)"
  unfolding room_code_after_def token_at_iff by blast

text \<open>
  The group that \<^verbatim>\<open>(.*) \w+\d\<close> extracts from one line of text: the longest beginning of
  the text that a space, one or more word characters and a digit follow.
\<close>

lemma re_search_line:
  assumes "CHR 0x0A \<notin> set s"
  shows "if \<exists>g. room_code_after g s
         then \<exists>g. re_search s = Some g \<and> room_code_after g s
                \<and> (\<forall>g'. room_code_after g' s \<longrightarrow> length g' \<le> length g)
         else re_search s = None"
proof (cases "\<exists>g. room_code_after g s")
  case True
  then obtain g0 t0 where s0: "s = g0 @ CHR '' '' # t0" and t0: "token_at t0"
    by (auto simp: room_code_after_iff)
  from assms s0 have "CHR 0x0A \<notin> set g0" by auto
  from match_here_longest [OF s0 t0 this] obtain g where m: "match_here s = Some g" by blast
  have "length g' \<le> length g" if "room_code_after g' s" for g'
  proof -
    from that obtain t' where s': "s = g' @ CHR '' '' # t'" and t': "token_at t'"
      by (auto simp: room_code_after_iff)
    from assms s' have "CHR 0x0A \<notin> set g'" by auto
    from match_here_longest [OF s' t' this] m show ?thesis by simp
  qed
  moreover from match_here_sound [OF m] have "room_code_after g s" by (simp add: room_code_after_iff)
  ultimately show ?thesis using True re_search_first [OF m] by auto
next
  case False
  have "re_search s = None"
  proof (cases "re_search s")
    case (Some g)
    from re_search_sound [OF this] obtain pre t where s: "s = pre @ g @ CHR '' '' # t" and "token_at t"
      by blast
    then have "room_code_after (pre @ g) s" by (auto simp: room_code_after_iff)
    with False show ?thesis by blast
  qed simp
  with False show ?thesis by simp
qed


lemma for_loop_append:
  "for_loop (\<lambda>x acc. and_then (f x) (\<lambda>y. Inr (acc @ [y]))) xs acc =
     and_then (comprehension f xs) (\<lambda>ys. Inr (acc @ ys))"
proof (induction xs arbitrary: acc)
  case Nil
  show ?case by simp
next
  case (Cons x xs)
  show ?case
    by (cases "f x"; cases "comprehension f xs") (simp_all add: Cons.IH)
qed

lemma for_loop_extend:
  "for_loop (\<lambda>x acc. and_then (f x) (\<lambda>ys. Inr (acc @ ys))) xs acc =
     and_then (comprehension f xs) (\<lambda>yss. Inr (acc @ concat yss))"
proof (induction xs arbitrary: acc)
  case Nil
  show ?case by simp
next
  case (Cons x xs)
  show ?case
    by (cases "f x"; cases "comprehension f xs") (simp_all add: Cons.IH)
qed

lemma sections_loop_eq:
  "sections_loop body courses i acc =
     and_then (course_records body courses i) (\<lambda>ys. Inr (acc @ ys))"
  unfolding sections_loop_def course_records_def for_loop_append
  by (simp only: and_then_assoc)

lemma flatten_eq:
  "and_then (py_getitem json (PStr ''caches'')) (\<lambda>caches.
     and_then (py_getitem json (PStr ''courses'')) (\<lambda>courses.
     and_then (py_iter courses) (\<lambda>is.
     for_loop (sections_loop (body caches courses) courses) is []))) =
   and_then (py_getitem json (PStr ''caches'')) (\<lambda>caches.
     and_then (py_getitem json (PStr ''courses'')) (\<lambda>courses.
     and_then (py_iter courses) (\<lambda>is.
     and_then (comprehension (course_records (body caches courses) courses) is) (\<lambda>yss.
     Inr (concat yss)))))"
proof -
  have "for_loop (sections_loop b courses) is [] =
          and_then (comprehension (course_records b courses) is) (\<lambda>yss. Inr (concat yss))"
    for b courses "is"
  proof -
    have "sections_loop b courses = (\<lambda>i acc. and_then (course_records b courses i) (\<lambda>ys. Inr (acc @ ys)))"
      by (intro ext) (rule sections_loop_eq)
    then show ?thesis by (simp add: for_loop_extend)
  qed
  then show ?thesis by simp
qed

lemma gt_flatten_eq:
  "gt_transform_json_to_list json =
     and_then (py_getitem json (PStr ''caches'')) (\<lambda>caches.
     and_then (py_getitem json (PStr ''courses'')) (\<lambda>courses.
     and_then (py_iter courses) (\<lambda>is.
     and_then (comprehension (course_records (gt_course_format caches courses) courses) is) (\<lambda>yss.
     Inr (concat yss)))))"
  unfolding gt_transform_json_to_list_def by (rule flatten_eq)

lemma etl_flatten_eq:
  "etl_transform_json_to_list json =
     and_then (py_getitem json (PStr ''caches'')) (\<lambda>caches.
     and_then (py_getitem json (PStr ''courses'')) (\<lambda>courses.
     and_then (py_iter courses) (\<lambda>is.
     and_then (comprehension (course_records (etl_course_format caches courses) courses) is) (\<lambda>yss.
     Inr (concat yss)))))"
  unfolding etl_transform_json_to_list_def by (rule flatten_eq)

lemma dict_set_twice [simp]: "dict_set k v (dict_set k w d) = dict_set k v d"
  by (simp add: dict_set_def)



lemma without_attributes_dict_set [simp]:
  "without_attributes (dict_set ''attributes'' v d) = without_attributes d"
  unfolding without_attributes_def dict_set_def
  by (induction d) auto

text \<open>The loop of \<^verbatim>\<open>src/etl.py\<close> over the attribute indices keeps the last label only.\<close>

lemma overwrite_loop:
  "for_loop (\<lambda>a cf. and_then (f a) (\<lambda>label. Inr (dict_set k label cf))) items (dict_set k v0 d) =
     and_then (comprehension f items) (\<lambda>labels. Inr (dict_set k (last (v0 # labels)) d))"
proof (induction items arbitrary: v0)
  case Nil
  show ?case by simp
next
  case (Cons a items)
  show ?case
    by (cases "f a"; cases "comprehension f items") (simp_all add: Cons.IH)
qed

lemma etl_attributes_eq:
  "etl_attributes caches course_details cf =
     and_then (py_getitem course_details (PInt 5)) (\<lambda>idxs.
     and_then (py_iter idxs) (\<lambda>items.
     and_then (comprehension (attribute_label caches) items) (\<lambda>labels.
     Inr (dict_set ''attributes'' (last (idxs # labels)) cf))))"
  unfolding etl_attributes_def overwrite_loop ..

lemma truthy_iter_Nil: "py_iter v = Inr [] \<Longrightarrow> \<not> truthy v"
  by (cases v) auto

lemma falsy_iter_Nil: "\<not> truthy v \<Longrightarrow> py_iter v = Inr items \<Longrightarrow> items = []"
  by (cases v) auto

lemma attributes_agree:
  assumes "etl_attributes caches cd cf = Inr r"
  shows "\<exists>r'. gt_attributes caches cd cf = Inr r' \<and> without_attributes r' = without_attributes r"
proof -
  from assms obtain idxs items labels where i: "py_getitem cd (PInt 5) = Inr idxs"
    and it: "py_iter idxs = Inr items" and c: "comprehension (attribute_label caches) items = Inr labels"
    and r: "r = dict_set ''attributes'' (last (idxs # labels)) cf"
    unfolding etl_attributes_eq and_then_Inr_iff by blast
  show ?thesis
    by (cases "truthy idxs") (simp_all add: gt_attributes_def i it c r)
qed

lemma course_format_agree:
  assumes "etl_course_format caches courses i sections l = Inr r"
  shows "\<exists>r'. gt_course_format caches courses i sections l = Inr r'
           \<and> without_attributes r' = without_attributes r"
proof -
  from assms obtain cd cf where cd: "py_getitem sections l = Inr cd"
    and cf: "section_fields caches courses i l cd = Inr cf"
    and a: "etl_attributes caches cd cf = Inr r"
    unfolding etl_course_format_def and_then_Inr_iff by blast
  from attributes_agree [OF a] show ?thesis by (simp add: gt_course_format_def cd cf)
qed

lemma comprehension_agree:
  assumes "comprehension f xs = Inr ys"
    and "\<And>x y. f x = Inr y \<Longrightarrow> \<exists>y'. g x = Inr y' \<and> R y' y"
  shows "\<exists>ys'. comprehension g xs = Inr ys' \<and> list_all2 R ys' ys"
  using assms(1)
proof (induction xs arbitrary: ys)
  case Nil
  then show ?case by simp
next
  case (Cons x xs)
  from Cons.prems obtain y ys0 where fx: "f x = Inr y" and c: "comprehension f xs = Inr ys0"
    and ys: "ys = y # ys0"
    by (auto split: sum.splits)
  from assms(2) [OF fx] obtain y' where gx: "g x = Inr y'" and R: "R y' y" by blast
  from Cons.IH [OF c] obtain ys' where "comprehension g xs = Inr ys'" "list_all2 R ys' ys0" by blast
  with gx R ys show ?case by simp
qed

lemma list_all2_map_eq: "list_all2 (\<lambda>a b. f a = f b) xs ys \<Longrightarrow> map f xs = map f ys"
  by (induction rule: list_all2_induct) simp_all

lemma course_records_agree:
  assumes "course_records (etl_course_format caches courses) courses i = Inr ys"
  shows "\<exists>ys'. course_records (gt_course_format caches courses) courses i = Inr ys'
           \<and> map without_attributes ys' = map without_attributes ys"
proof -
  from assms obtain course sections ls where a: "py_getitem courses i = Inr course"
    and b: "py_getitem course (PInt 1) = Inr sections" and c: "py_iter sections = Inr ls"
    and d: "comprehension (etl_course_format caches courses i sections) ls = Inr ys"
    unfolding course_records_def and_then_Inr_iff by blast
  from comprehension_agree [OF d, where g = "gt_course_format caches courses i sections"
      and R = "\<lambda>r' r. without_attributes r' = without_attributes r"] course_format_agree
  obtain ys' where "comprehension (gt_course_format caches courses i sections) ls = Inr ys'"
    and "list_all2 (\<lambda>r' r. without_attributes r' = without_attributes r) ys' ys" by blast
  then show ?thesis
    by (simp add: course_records_def a b c list_all2_map_eq)
qed

lemma flatten_agree:
  assumes "etl_transform_json_to_list json = Inr rs"
  shows "\<exists>rs'. gt_transform_json_to_list json = Inr rs'
           \<and> map without_attributes rs' = map without_attributes rs"
proof -
  from assms obtain caches courses "is" yss where a: "py_getitem json (PStr ''caches'') = Inr caches"
    and b: "py_getitem json (PStr ''courses'') = Inr courses" and c: "py_iter courses = Inr is"
    and d: "comprehension (course_records (etl_course_format caches courses) courses) is = Inr yss"
    and rs: "rs = concat yss"
    unfolding etl_flatten_eq and_then_Inr_iff by blast
  from comprehension_agree [OF d, where g = "course_records (gt_course_format caches courses) courses"
      and R = "\<lambda>ys' ys. map without_attributes ys' = map without_attributes ys"] course_records_agree
  obtain yss' where e: "comprehension (course_records (gt_course_format caches courses) courses) is = Inr yss'"
    and f: "list_all2 (\<lambda>ys' ys. map without_attributes ys' = map without_attributes ys) yss' yss" by blast
  from f have "map without_attributes (concat yss') = map without_attributes (concat yss)"
    by (induction rule: list_all2_induct) simp_all
  with e show ?thesis by (simp add: gt_flatten_eq a b c rs)
qed

lemma gt_attributes_list:
  assumes "py_getitem cd (PInt 5) = Inr (PList idxs)"
  shows "gt_attributes caches cd cf =
     (if idxs = [] then Inr (dict_set ''attributes'' PNone cf)
      else and_then (comprehension (attribute_label caches) idxs) (\<lambda>labels.
             Inr (dict_set ''attributes'' (PList labels) cf)))"
  by (simp add: gt_attributes_def assms)

text \<open>
  C5. The claim: flatten resolves attributes to the full list of labels, and an empty list
  of indices gives an empty list, not an absent value. In \<^verbatim>\<open>src/etl/gt_class_etl.py\<close> the
  conditional expression gives \<^verbatim>\<open>None\<close> for an empty list of indices: section A of the
  example document has no attribute index and its record holds \<^verbatim>\<open>None\<close>.
\<close>

theorem flatten_empty_attributes_none:
  "map_sum id (map (\<lambda>r. map_of r ''attributes'')) (gt_transform_json_to_list example_doc)
     = Inr [Some PNone, Some (PList [PStr ''Honors'', PStr ''Ethics''])]"
  by code_simp

text \<open>
  C5, as the code has it by design: for a section whose attribute indices are a list,
  \<^verbatim>\<open>src/etl/gt_class_etl.py\<close> sets attributes to \<^verbatim>\<open>None\<close> when the list is empty and
  otherwise to the list of the labels that the attributes cache holds at the indices, in
  order (it sets the field exactly when every lookup succeeds); \<^verbatim>\<open>src/etl.py\<close> sets
  attributes to the empty list when the list of indices is empty. Neither raises on an
  empty list.
\<close>

theorem attributes_resolved:
  assumes "py_getitem cd (PInt 5) = Inr (PList idxs)"
  shows "(idxs = [] \<longrightarrow>
            gt_attributes caches cd cf = Inr (dict_set ''attributes'' PNone cf)
          \<and> etl_attributes caches cd cf = Inr (dict_set ''attributes'' (PList []) cf))
       \<and> (idxs \<noteq> [] \<longrightarrow>
            (\<forall>r. gt_attributes caches cd cf = Inr r \<longleftrightarrow>
                 (\<exists>labels. list_all2 (\<lambda>a v. attribute_label caches a = Inr v) idxs labels
                    \<and> r = dict_set ''attributes'' (PList labels) cf)))"
proof (intro conjI impI allI)
  assume "idxs = []"
  then show "gt_attributes caches cd cf = Inr (dict_set ''attributes'' PNone cf)"
    by (simp add: gt_attributes_list [OF assms])
  from \<open>idxs = []\<close> show "etl_attributes caches cd cf = Inr (dict_set ''attributes'' (PList []) cf)"
    by (simp add: etl_attributes_eq assms)
next
  fix r assume "idxs \<noteq> []"
  then show "gt_attributes caches cd cf = Inr r \<longleftrightarrow>
                 (\<exists>labels. list_all2 (\<lambda>a v. attribute_label caches a = Inr v) idxs labels
                    \<and> r = dict_set ''attributes'' (PList labels) cf)"
    unfolding gt_attributes_list [OF assms] by (auto simp: and_then_Inr_iff comprehension_Inr_iff)
qed

theorem attributes_resolved_witness:
  "py_getitem section_b (PInt 5) = Inr (PList [PInt 0, PInt 1])
   \<and> [PInt 0, PInt 1] \<noteq> []
   \<and> list_all2 (\<lambda>a v. attribute_label example_caches a = Inr v) [PInt 0, PInt 1]
        [PStr ''Honors'', PStr ''Ethics'']
   \<and> gt_attributes example_caches section_b []
        = Inr (dict_set ''attributes'' (PList [PStr ''Honors'', PStr ''Ethics'']) [])
   \<and> py_getitem section_a (PInt 5) = Inr (PList [])
   \<and> gt_attributes example_caches section_a [] = Inr (dict_set ''attributes'' PNone [])
   \<and> etl_attributes example_caches section_a [] = Inr (dict_set ''attributes'' (PList []) [])"
proof -
  have b: "py_getitem section_b (PInt 5) = Inr (PList [PInt 0, PInt 1])" by code_simp
  have a: "py_getitem section_a (PInt 5) = Inr (PList [])" by code_simp
  have l: "list_all2 (\<lambda>a v. attribute_label example_caches a = Inr v) [PInt 0, PInt 1]
        [PStr ''Honors'', PStr ''Ethics'']" by code_simp
  from attributes_resolved [OF b, of example_caches "[]"] l
  have g: "gt_attributes example_caches section_b []
        = Inr (dict_set ''attributes'' (PList [PStr ''Honors'', PStr ''Ethics'']) [])" by blast
  from attributes_resolved [OF a, of example_caches "[]"]
  have e: "gt_attributes example_caches section_a [] = Inr (dict_set ''attributes'' PNone [])"
    "etl_attributes example_caches section_a [] = Inr (dict_set ''attributes'' (PList []) [])"
    by simp_all
  from a b l g e show ?thesis by simp
qed
















lemma survives_pieces: "survives r \<longleftrightarrow> 2 \<le> length (field_pieces ''time'' r)"
  by (auto simp: survives_def field_pieces_def split_cell_def record_cell_def cell_of_def
      str_split_def part_cell_def split: option.splits pyval.splits)









text \<open>
  The superscript two passes \<^verbatim>\<open>isdigit\<close> and is no digit for \<^verbatim>\<open>strptime\<close>: on such a time
  both files raise \<^verbatim>\<open>ValueError\<close>.
\<close>

lemma transform_superscript_raises:
  "gt_transform [record_superscript] = Inl ValueError
   \<and> etl_transform [record_superscript] = Inl ValueError"
  by code_simp




text \<open>
  C4. The claim: a record whose date range (or time) is present but lacks the separator
  \<^verbatim>\<open>" - "\<close> gets an absent start and end date (or raw start and end time), without raising.
  pandas pads a shorter split on the right only: with the scenario's record and a second
  one whose date range is \<^verbatim>\<open>"TBA"\<close>, the start date of the second row is \<^verbatim>\<open>"TBA"\<close>, not
  absent; and on the list of that second record alone the split is one column wide, and
  the assignment to two columns raises \<^verbatim>\<open>ValueError\<close> in both files.
\<close>

theorem transform_no_separator_start_date:
  "map_sum id (\<lambda>df. (map_of (columns df) ''start_date'', map_of (columns df) ''end_date''))
       (gt_transform [record_mwf, record_tba])
     = Inr (Some [Obj (PStr ''2025-01-06''), Obj (PStr ''TBA'')],
            Some [Obj (PStr ''2025-05-02''), Obj PNone])
   \<and> gt_transform [record_tba] = Inl ValueError
   \<and> etl_transform [record_tba] = Inl ValueError"
  by code_simp

text \<open>
  C4, as the code has it: on records whose date range, time, day codes and building are
  strings where present, whenever either file's \<^verbatim>\<open>transform\<close> returns, a record whose time
  is a string without the separator is not in the output (its raw end time is absent), and
  a surviving record whose date range is a string without the separator has that whole
  string as its start date and \<^verbatim>\<open>None\<close> as its end date.
\<close>

theorem transform_without_separator:
  assumes "str_typed rs" and "gt_transform rs = Inr df \<or> etl_transform rs = Inr df"
    and "i < length rs"
  shows "(\<forall>s. map_of (rs ! i) ''time'' = Some (PStr s) \<and> \<not> sublist '' - '' s
              \<longrightarrow> i \<notin> set (index df))
       \<and> (\<exists>sd ed. map_of (columns df) ''start_date'' = Some sd
              \<and> map_of (columns df) ''end_date'' = Some ed
              \<and> (\<forall>s p. map_of (rs ! i) ''date_range'' = Some (PStr s) \<and> \<not> sublist '' - '' s
                      \<and> p < length (index df) \<and> index df ! p = i
                    \<longrightarrow> sd ! p = Obj (PStr s) \<and> ed ! p = Obj PNone))"
proof -
  note r = transform_returned [OF assms(2)]
  have "i \<notin> set (index df)" if "map_of (rs ! i) ''time'' = Some (PStr s)" "\<not> sublist '' - '' s" for s
    using no_sep_cells(2) [OF that] by (simp add: r(2) kept_subset survives_def)
  moreover have "map (\<lambda>i. split_cell 0 ''date_range'' (rs ! i)) (kept rs) ! p = Obj (PStr s)
      \<and> map (\<lambda>i. split_cell 1 ''date_range'' (rs ! i)) (kept rs) ! p = Obj PNone"
    if "map_of (rs ! i) ''date_range'' = Some (PStr s)" "\<not> sublist '' - '' s"
      "p < length (index df)" "index df ! p = i" for s p
  proof -
    from that(3,4) have p: "p < length (kept rs)" and k: "kept rs ! p = i" by (simp_all add: r(2))
    show ?thesis unfolding nth_map [OF p] k no_sep_cells [OF that(1,2)] by simp
  qed
  ultimately show ?thesis using r(3) r(4) by blast
qed

theorem transform_without_separator_witness:
  "str_typed records_three
   \<and> (gt_transform records_three = Inr (out_frame ''thursday'' records_three)
      \<or> etl_transform records_three = Inr (out_frame ''thursday'' records_three))
   \<and> 2 < length records_three
   \<and> map_of (records_three ! 2) ''time'' = Some (PStr ''TBA'') \<and> \<not> sublist '' - '' ''TBA''
   \<and> 2 \<notin> set (index (out_frame ''thursday'' records_three))
   \<and> map_of (records_three ! 1) ''date_range'' = Some (PStr ''TBA'')
   \<and> 1 < length (index (out_frame ''thursday'' records_three))
   \<and> index (out_frame ''thursday'' records_three) ! 1 = 1
   \<and> (\<exists>sd ed. map_of (columns (out_frame ''thursday'' records_three)) ''start_date'' = Some sd
          \<and> map_of (columns (out_frame ''thursday'' records_three)) ''end_date'' = Some ed
          \<and> sd ! 1 = Obj (PStr ''TBA'') \<and> ed ! 1 = Obj PNone)"
proof -
  have ty: "str_typed records_three" by code_simp
  have run: "gt_transform records_three = Inr (out_frame ''thursday'' records_three)"
    by code_simp
  have l2: "2 < length records_three" and l1: "1 < length records_three"
    by (simp_all add: records_three_def)
  have t: "map_of (records_three ! 2) ''time'' = Some (PStr ''TBA'')" by code_simp
  have d: "map_of (records_three ! 1) ''date_range'' = Some (PStr ''TBA'')" by code_simp
  have n: "\<not> sublist '' - '' ''TBA''" by code_simp
  have p: "1 < length (index (out_frame ''thursday'' records_three))" by code_simp
  have ip: "index (out_frame ''thursday'' records_three) ! 1 = 1" by code_simp
  from transform_without_separator [OF ty disjI1 [OF run] l2] t n
  have a: "2 \<notin> set (index (out_frame ''thursday'' records_three))" by blast
  from transform_without_separator [OF ty disjI1 [OF run] l1] d n p ip
  have b: "\<exists>sd ed. map_of (columns (out_frame ''thursday'' records_three)) ''start_date'' = Some sd
          \<and> map_of (columns (out_frame ''thursday'' records_three)) ''end_date'' = Some ed
          \<and> sd ! 1 = Obj (PStr ''TBA'') \<and> ed ! 1 = Obj PNone" by blast
  from ty run l2 t n a d p ip b show ?thesis by blast
qed

text \<open>
  The class \<^verbatim>\<open>\w\<close> holds the accented letters: from the raw building \<^verbatim>\<open>Caf\<close>, e acute, a
  space, E acute, \<^verbatim>\<open>1\<close> both files extract \<^verbatim>\<open>Caf\<close>, e acute.
\<close>

lemma transform_building_accented:
  "map_sum id (\<lambda>df. map_of (columns df) ''building'') (gt_transform [record_accented])
     = Inr (Some [Obj (PStr (''Caf'' @ [CHR 0xE9]))])
   \<and> map_sum id (\<lambda>df. map_of (columns df) ''building'') (etl_transform [record_accented])
     = Inr (Some [Obj (PStr (''Caf'' @ [CHR 0xE9]))])"
  by code_simp

text \<open>
  C8. The claim: building is the part of the raw building before a trailing token that
  ends in a digit, and is absent when the raw building has no such trailing token. The
  pattern \<^verbatim>\<open>(.*) \w+\d\<close> is not anchored at the end: the raw building
  \<^verbatim>\<open>"Clough G25 Annex"\<close> ends in no such token, and both files give the building
  \<^verbatim>\<open>"Clough"\<close>.
\<close>

theorem transform_building_not_trailing:
  "map_sum id (\<lambda>df. map_of (columns df) ''building'') (gt_transform [record_annex])
     = Inr (Some [Obj (PStr ''Clough'')])
   \<and> map_sum id (\<lambda>df. map_of (columns df) ''building'') (etl_transform [record_annex])
     = Inr (Some [Obj (PStr ''Clough'')])"
  by code_simp

text \<open>
  C8, as the code has it. On records whose date range, time, day codes and building are
  strings where present, whenever either file's \<^verbatim>\<open>transform\<close> returns: a record whose raw
  time has two pieces and whose raw building is one line of text has its row in the
  output, whatever the raw building is, and in that row building is the longest beginning
  of the raw building that is followed by a space, one or more word characters (the class
  \<^verbatim>\<open>\w\<close>) and a digit \<^verbatim>\<open>0\<close> to \<^verbatim>\<open>9\<close>, wherever in the text that is; when the raw building has
  no such place, building is absent (\<^verbatim>\<open>NaN\<close>).
\<close>

theorem transform_building:
  assumes "str_typed rs" and "gt_transform rs = Inr df \<or> etl_transform rs = Inr df"
    and "i < length rs" and "length (field_pieces ''time'' (rs ! i)) = 2"
    and "map_of (rs ! i) ''building'' = Some (PStr s)" and "CHR 0x0A \<notin> set s"
  shows "i \<in> set (index df)
       \<and> (\<exists>b. map_of (columns df) ''building'' = Some b
           \<and> (\<forall>p < length (index df). index df ! p = i \<longrightarrow>
                (if \<exists>g. room_code_after g s
                 then \<exists>g. b ! p = Obj (PStr g) \<and> room_code_after g s
                        \<and> (\<forall>g'. room_code_after g' s \<longrightarrow> length g' \<le> length g)
                 else b ! p = NaN)))"
proof -
  note r = transform_returned [OF assms(2)]
  let ?b = "map (\<lambda>i. str_extract (record_cell ''building'' (rs ! i))) (kept rs)"
  from assms(3,4) have "i \<in> set (kept rs)" by (simp add: kept_subset survives_pieces)
  then have mem: "i \<in> set (index df)" by (simp add: r(2))
  have c: "record_cell ''building'' (rs ! i) = Obj (PStr s)"
    by (simp add: record_cell_def cell_of_def assms(5))
  have "if \<exists>g. room_code_after g s
        then \<exists>g. ?b ! p = Obj (PStr g) \<and> room_code_after g s
                      \<and> (\<forall>g'. room_code_after g' s \<longrightarrow> length g' \<le> length g)
        else ?b ! p = NaN"
    if "p < length (index df)" "index df ! p = i" for p
  proof -
    from that have p: "p < length (kept rs)" and k: "kept rs ! p = i" by (simp_all add: r(2))
    have b: "?b ! p = (case re_search s of Some g \<Rightarrow> Obj (PStr g) | None \<Rightarrow> NaN)"
      unfolding nth_map [OF p] k c by (simp add: str_extract_def)
    show ?thesis using re_search_line [OF assms(6)] unfolding b by (auto split: if_splits)
  qed
  with r(7) mem show ?thesis by blast
qed

theorem transform_building_witness:
  "str_typed records_buildings
   \<and> (gt_transform records_buildings = Inr (out_frame ''thursday'' records_buildings)
      \<or> etl_transform records_buildings = Inr (out_frame ''thursday'' records_buildings))
   \<and> 1 < length records_buildings
   \<and> length (field_pieces ''time'' (records_buildings ! 1)) = 2
   \<and> map_of (records_buildings ! 1) ''building'' = Some (PStr ''Online'')
   \<and> CHR 0x0A \<notin> set ''Online''
   \<and> \<not> (\<exists>g. room_code_after g ''Online'')
   \<and> 1 \<in> set (index (out_frame ''thursday'' records_buildings))
   \<and> index (out_frame ''thursday'' records_buildings) ! 1 = 1
   \<and> (\<exists>b. map_of (columns (out_frame ''thursday'' records_buildings)) ''building'' = Some b
          \<and> b ! 1 = NaN)
   \<and> map_of (columns (out_frame ''thursday'' records_buildings)) ''building''
       = Some [Obj (PStr ''Clough Undergraduate Learning Commons''), NaN]"
proof -
  let ?F = "out_frame ''thursday'' records_buildings"
  have ty: "str_typed records_buildings" by code_simp
  have run: "gt_transform records_buildings = Inr ?F" by code_simp
  have l: "1 < length records_buildings" by (simp add: records_buildings_def)
  have f: "length (field_pieces ''time'' (records_buildings ! 1)) = 2" by code_simp
  have bd: "map_of (records_buildings ! 1) ''building'' = Some (PStr ''Online'')" by code_simp
  have nl: "CHR 0x0A \<notin> set ''Online''" by simp
  have none: "re_search ''Online'' = None" by code_simp
  have no: "\<not> (\<exists>g. room_code_after g ''Online'')"
    using re_search_line [OF nl] none by (auto split: if_splits)
  have p: "1 < length (index ?F)" by code_simp
  have ip: "index ?F ! 1 = 1" by code_simp
  have all: "map_of (columns ?F) ''building''
       = Some [Obj (PStr ''Clough Undergraduate Learning Commons''), NaN]" by code_simp
  note th = transform_building [OF ty disjI1 [OF run] l f bd nl]
  from th have m: "1 \<in> set (index ?F)" by (rule conjunct1)
  from th obtain b where b: "map_of (columns ?F) ''building'' = Some b"
    and row: "\<forall>p < length (index ?F). index ?F ! p = 1 \<longrightarrow>
                (if \<exists>g. room_code_after g ''Online''
                 then \<exists>g. b ! p = Obj (PStr g) \<and> room_code_after g ''Online''
                        \<and> (\<forall>g'. room_code_after g' ''Online'' \<longrightarrow> length g' \<le> length g)
                 else b ! p = NaN)" by blast
  from row p ip have "if \<exists>g. room_code_after g ''Online''
                 then \<exists>g. b ! 1 = Obj (PStr g) \<and> room_code_after g ''Online''
                        \<and> (\<forall>g'. room_code_after g' ''Online'' \<longrightarrow> length g' \<le> length g)
                 else b ! 1 = NaN" by blast
  with no have "b ! 1 = NaN" by simp
  with b have e: "\<exists>b. map_of (columns ?F) ''building'' = Some b \<and> b ! 1 = NaN" by blast
  from ty run l f bd nl no m ip e all show ?thesis by (intro conjI disjI1)
qed

text \<open>
  C10. The claim: the two files compute the same, record lists and frames. They do not, by
  two slips of \<^verbatim>\<open>src/etl.py\<close>. Its loop over the attribute indices (lines 55-57) assigns
  the field anew in every round and so keeps the last label only, where
  \<^verbatim>\<open>src/etl/gt_class_etl.py\<close> (line 72) builds the list of the labels: on the example
  document, whose section B has the indices 0 and 1, the attributes of the two record
  lists differ. And it names the fourth weekday column \<^verbatim>\<open>thurday\<close> (line 87): on the record
  of the scenario the two frames differ in their column names.
\<close>

theorem implementations_differ:
  "map_sum id (map (\<lambda>r. map_of r ''attributes'')) (etl_transform_json_to_list example_doc)
     = Inr [Some (PList []), Some (PStr ''Ethics'')]
   \<and> map_sum id (map (\<lambda>r. map_of r ''attributes'')) (gt_transform_json_to_list example_doc)
     = Inr [Some PNone, Some (PList [PStr ''Honors'', PStr ''Ethics''])]
   \<and> etl_transform_json_to_list example_doc \<noteq> gt_transform_json_to_list example_doc
   \<and> map_sum id (\<lambda>df. map fst (columns df)) (etl_transform [record_mwf])
     \<noteq> map_sum id (\<lambda>df. map fst (columns df)) (gt_transform [record_mwf])
   \<and> etl_transform [record_mwf] \<noteq> gt_transform [record_mwf]"
  by code_simp










end
